theory Spec2Isabelle
  imports Main "HOL-Library.Char_ord" "HOL-Library.List_Lexorder" "HOL-Library.Multiset"
begin

section \<open>Data model of main.py\<close>

text \<open>
  Python strings are modelled as \<open>string\<close>: a \<open>char\<close> is the code point of that
  number, so that the strings of the model are the Python strings of code points below
  256. On these \<open>str.lower\<close>, \<open>\s\<close> and \<open>str.strip\<close> are as Python has
  them, and strings are compared as Python compares them, lexicographically by code.
\<close>

text \<open>
  Every exception that \<open>except Exception\<close> catches. \<open>ApiError\<close> stands for
  whatever a remote call raises, \<open>OSError\<close> for a failure to read the key file,
  \<open>IndexError\<close> for \<open>xs[0]\<close> on an empty list and \<open>EOFError\<close> for
  \<open>input()\<close> on a closed console.
\<close>

datatype exn = ApiError string | OSError string | IndexError | EOFError

text \<open>
  A raw record of the Apple Music API: a dict that may hold the key
  \<open>'attributes'\<close>, itself a dict of string fields.
\<close>

record raw_track =
  attributes :: "(string \<rightharpoonup> string) option"

text \<open>\<open>{'artist': ..., 'name': ...}\<close>, the entries of \<open>all_tracks\<close>.\<close>

record track =
  artist :: string
  name :: string

text \<open>\<open>{'id': ..., 'artist': ..., 'name': ...}\<close>, the entries of \<open>found_tracks\<close>.\<close>

record spotify_track = track +
  track_id :: string

text \<open>
  One element of \<open>result['tracks']['items']\<close>: its \<open>'id'\<close>, its
  \<open>'name'\<close> and the \<open>'name'\<close> of each entry of its \<open>'artists'\<close> list.
\<close>

record search_item =
  item_id :: string
  item_name :: string
  item_artists :: "string list"

text \<open>One constructor for each \<open>print\<close> statement, with the values it interpolates.\<close>

datatype message =
    ConnectingApple
  | FetchingAll
  | ReachedEnd
  | FetchedSoFar nat
  | FoundTotal nat
  | ErrorApple exn
  | SearchingSpotify
  | SearchingFor nat nat string string
  | NoExactMatch
  | CleanedTitle string
  | FoundOnSpotify string string
  | CouldNotFind
  | SearchFailed string exn
  | SearchComplete
  | NoTracksToAdd
  | SortingTracks
  | UpdatingPlaylist
  | Success
  | ErrorUpdating exn
  | CouldNotAuthenticate exn
  | ReviewRule
  | ReviewTitle
  | NotFoundHeader
  | NotFoundItem string
  | WillBeSyncedHeader
  | SyncItem string string
  | NoTracksToSync
  | SyncCancelled

text \<open>
  What a run does to the outside, in the order it does it: console output, the console
  read, and every call of a remote service with its arguments. The pauses of
  \<open>time.sleep\<close> change no value and no call, and are left out.
\<close>

datatype event =
    Print message
  | Input
  | AppleRequest string nat nat
  | SpotifyMe
  | SpotifySearch string
  | ReplaceItems string "string list"
  | AddItems string "string list"

text \<open>
  \<open>am.playlist_relationship(playlist_id, 'tracks', limit=..., offset=...)\<close>: the
  \<open>'data'\<close> list of the response, or the exception the call raises.
\<close>

type_synonym apple_music = "string \<Rightarrow> nat \<Rightarrow> nat \<Rightarrow> exn + raw_track list"

text \<open>
  The Spotify client \<open>sp\<close>. The service is a state machine on states \<open>'w\<close>
  about which nothing is assumed: every call returns its answer, or the exception it
  raises, and the next state. \<open>me\<close> stands for the whole \<open>try\<close> of lines 152
  to 160, the construction of the client and the call \<open>sp.me()\<close>.
\<close>

record 'w spotify =
  me :: "'w \<Rightarrow> exn option \<times> 'w"
  search :: "string \<Rightarrow> 'w \<Rightarrow> (exn + search_item list) \<times> 'w"
  playlist_replace_items :: "string \<Rightarrow> string list \<Rightarrow> 'w \<Rightarrow> exn option \<times> 'w"
  playlist_add_items :: "string \<Rightarrow> string list \<Rightarrow> 'w \<Rightarrow> exn option \<times> 'w"

section \<open>get_apple_music_tracks\<close>

text \<open>
  The test of line 48: the record has \<open>'attributes'\<close>, and that has
  \<open>'artistName'\<close> and \<open>'name'\<close>.
\<close>

definition usable :: "raw_track \<Rightarrow> bool" where
  "usable r = (case attributes r of
       None \<Rightarrow> False
     | Some a \<Rightarrow> a ''artistName'' \<noteq> None \<and> a ''name'' \<noteq> None)"

text \<open>The \<open>for track in page_of_tracks\<close> loop: what it appends to \<open>all_tracks\<close>.\<close>

fun process_page :: "raw_track list \<Rightarrow> track list" where
  "process_page [] = []"
| "process_page (r # rs) =
     (case attributes r of
        None \<Rightarrow> process_page rs
      | Some a \<Rightarrow>
          (case (a ''artistName'', a ''name'') of
             (Some ar, Some nm) \<Rightarrow> \<lparr>artist = ar, name = nm\<rparr> # process_page rs
           | _ \<Rightarrow> process_page rs))"


text \<open>
  The \<open>while True\<close> loop, with its variables \<open>offset\<close> and \<open>all_tracks\<close>
  and the events so far. It returns the list, or the exception of the failing request;
  a loop that never ends is the value \<open>None\<close>.
\<close>

partial_function (option) fetch_loop ::
  "apple_music \<Rightarrow> string \<Rightarrow> nat \<Rightarrow> track list \<Rightarrow> event list
     \<Rightarrow> ((exn + track list) \<times> event list) option" where
  "fetch_loop am playlist_id offset all_tracks out =
     (case am playlist_id 100 offset of
        Inl e \<Rightarrow> Some (Inl e, out @ [AppleRequest playlist_id 100 offset])
      | Inr page_of_tracks \<Rightarrow>
          (let all_tracks' = all_tracks @ process_page page_of_tracks;
               out' = out @ [AppleRequest playlist_id 100 offset]
           in if length page_of_tracks < 100
              then Some (Inr all_tracks', out' @ [Print ReachedEnd])
              else fetch_loop am playlist_id (offset + 100) all_tracks'
                     (out' @ [Print (FetchedSoFar (length all_tracks'))])))"

text \<open>
  \<open>get_apple_music_tracks\<close>. The first argument is the outcome of reading the key
  file and building the client. The result is the track list, or Python's \<open>None\<close>
  after an exception, with the events of the call.
\<close>

definition get_apple_music_tracks ::
  "exn + apple_music \<Rightarrow> string \<Rightarrow> (track list option \<times> event list) option" where
  "get_apple_music_tracks connect playlist_id =
     (case connect of
        Inl e \<Rightarrow> Some (None, [Print ConnectingApple, Print (ErrorApple e)])
      | Inr am \<Rightarrow>
          (case fetch_loop am playlist_id 0 [] [Print ConnectingApple, Print FetchingAll] of
             None \<Rightarrow> None
           | Some (Inl e, out) \<Rightarrow> Some (None, out @ [Print (ErrorApple e)])
           | Some (Inr all_tracks, out) \<Rightarrow>
               Some (Some all_tracks, out @ [Print (FoundTotal (length all_tracks))])))"

text \<open>
  A source playlist as the service holds it, served in pages: a request returns the
  records from \<open>offset\<close> on, at most \<open>limit\<close> of them.
\<close>

definition paged :: "raw_track list \<Rightarrow> apple_music" where
  "paged playlist = (\<lambda>playlist_id limit offset. Inr (take limit (drop offset playlist)))"

text \<open>The offsets of the page requests among some events, in call order.\<close>

fun page_requests :: "event list \<Rightarrow> nat list" where
  "page_requests [] = []"
| "page_requests (AppleRequest p l off # es) = off # page_requests es"
| "page_requests (e # es) = page_requests es"

section \<open>Strings\<close>

text \<open>
  \<open>str.lower\<close> on one character: the capitals move 32 codes up. They are the
  letters A to Z (codes 65 to 90) and the accented capitals of codes 192 to 222, but for
  the multiplication sign (215); no other character below 256 changes.
\<close>

definition lower_char :: "char \<Rightarrow> char" where
  "lower_char c =
     (let n = (of_char c :: nat)
      in if (65 \<le> n \<and> n \<le> 90) \<or> (192 \<le> n \<and> n \<le> 222 \<and> n \<noteq> 215)
         then char_of (n + 32)
         else c)"

definition str_lower :: "string \<Rightarrow> string" where
  "str_lower s = map lower_char s"

text \<open>
  The characters that \<open>\s\<close> matches and \<open>str.strip\<close> removes: codes 9 to 13
  (tab, line feed, vertical tab, form feed, carriage return), 28 to 31 (the separators),
  32 (space), 133 (next line) and 160 (no-break space).
\<close>

definition is_space :: "char \<Rightarrow> bool" where
  "is_space c =
     (let n = (of_char c :: nat)
      in (9 \<le> n \<and> n \<le> 13) \<or> (28 \<le> n \<and> n \<le> 32) \<or> n = 133 \<or> n = 160)"

definition strip :: "string \<Rightarrow> string" where
  "strip s = rev (dropWhile is_space (rev (dropWhile is_space s)))"

text \<open>
  One alternative of the pattern of line 93, \<open>\s*\([^)]*\)\<close> with the opening
  character \<open>opn\<close> and the closing one \<open>cls\<close>, tried at the start of \<open>s\<close>:
  the text after the match, or \<open>None\<close> when there is no match. Both stars are
  greedy and neither can give a character back: after a shorter run of whitespace the
  next character is whitespace, not \<open>opn\<close>, and after a shorter run of characters
  other than \<open>cls\<close> the next one is not \<open>cls\<close>.
\<close>

definition match_group :: "char \<Rightarrow> char \<Rightarrow> string \<Rightarrow> string option" where
  "match_group opn cls s =
     (case dropWhile is_space s of
        [] \<Rightarrow> None
      | c # rest \<Rightarrow>
          if c = opn
          then (case dropWhile (\<lambda>x. x \<noteq> cls) rest of
                  [] \<Rightarrow> None
                | _ # after \<Rightarrow> Some after)
          else None)"

text \<open>
  \<open>re.sub(r'\s*\([^)]*\)|\s*\[[^\]]*\]', '', name)\<close>: at each position the first
  alternative is tried, then the second; a match is removed and the scan goes on after
  it, otherwise the character is kept.
\<close>

function re_sub :: "string \<Rightarrow> string" where
  "re_sub [] = []"
| "re_sub (c # cs) =
     (case match_group (CHR ''('') (CHR '')'') (c # cs) of
        Some after \<Rightarrow> re_sub after
      | None \<Rightarrow>
          (case match_group (CHR ''['') (CHR '']'') (c # cs) of
             Some after \<Rightarrow> re_sub after
           | None \<Rightarrow> c # re_sub cs))"
  by pat_completeness auto
termination
proof (relation "measure length")
  have shorter: "length after < length s" if "match_group opn cls s = Some after"
    for opn cls s after
  proof -
    from that obtain c rest x where
      a: "dropWhile is_space s = c # rest" and b: "dropWhile (\<lambda>x. x \<noteq> cls) rest = x # after"
      by (auto simp: match_group_def split: list.splits if_splits)
    have "length (c # rest) \<le> length s"
      unfolding a [symmetric] by (rule length_dropWhile_le)
    moreover have "length (x # after) \<le> length rest"
      unfolding b [symmetric] by (rule length_dropWhile_le)
    ultimately show ?thesis by simp
  qed
  show "wf (measure length)" by simp
  show "(after, c # cs) \<in> measure length"
    if "match_group (CHR ''('') (CHR '')'') (c # cs) = Some after" for c cs after
    using shorter [OF that] by simp
  show "(after, c # cs) \<in> measure length"
    if "match_group (CHR ''['') (CHR '']'') (c # cs) = Some after" for c cs after
    using shorter [OF that] by simp
  show "(cs, c # cs) \<in> measure length" for c :: char and cs
    by simp
qed

text \<open>The expression of line 93.\<close>

definition cleaned_name :: "string \<Rightarrow> string" where
  "cleaned_name nm = strip (re_sub nm)"

text \<open>
  A title holds a parenthetical, or a bracketed, substring: an opening character with a
  closing one somewhere after it.
\<close>

fun has_group :: "char \<Rightarrow> char \<Rightarrow> string \<Rightarrow> bool" where
  "has_group opn cls [] = False"
| "has_group opn cls (c # cs) = ((c = opn \<and> cls \<in> set cs) \<or> has_group opn cls cs)"

section \<open>find_spotify_tracks\<close>

text \<open>\<open>sp.search(q=query, type='track', limit=1)\<close> with its event.\<close>

definition call_search ::
  "'w spotify \<Rightarrow> string \<Rightarrow> 'w \<Rightarrow> (exn + search_item list) \<times> 'w \<times> event list" where
  "call_search sp query w = (case search sp query w of (r, w') \<Rightarrow> (r, w', [SpotifySearch query]))"

text \<open>
  The body of the \<open>try\<close> of lines 84 to 111 for one track: the track found,
  \<open>None\<close> when the search found nothing, or the exception raised on the way. The
  last can be the \<open>IndexError\<close> of \<open>top_result['artists'][0]\<close>.
\<close>

definition try_search ::
  "'w spotify \<Rightarrow> track \<Rightarrow> 'w \<Rightarrow> (exn + spotify_track option) \<times> 'w \<times> event list" where
  "try_search sp t w =
     (case call_search sp (''track:'' @ name t @ '' artist:'' @ artist t) w of
        (Inl e, w1, ev1) \<Rightarrow> (Inl e, w1, ev1)
      | (Inr items1, w1, ev1) \<Rightarrow>
          (case (if items1 = []
                 then (if cleaned_name (name t) \<noteq> name t
                       then (case call_search sp
                                (''track:'' @ cleaned_name (name t) @ '' artist:'' @ artist t) w1 of
                               (r, w2, ev2) \<Rightarrow>
                                 (r, w2, ev1 @ [Print NoExactMatch,
                                    Print (CleanedTitle (cleaned_name (name t)))] @ ev2))
                       else (Inr items1, w1, ev1 @ [Print NoExactMatch]))
                 else (Inr items1, w1, ev1)) of
             (Inl e, w2, ev) \<Rightarrow> (Inl e, w2, ev)
           | (Inr [], w2, ev) \<Rightarrow> (Inr None, w2, ev @ [Print CouldNotFind])
           | (Inr (top_result # _), w2, ev) \<Rightarrow>
               (case item_artists top_result of
                  [] \<Rightarrow> (Inl IndexError, w2, ev)
                | a # _ \<Rightarrow>
                    (Inr (Some \<lparr>artist = a, name = item_name top_result,
                                track_id = item_id top_result\<rparr>),
                     w2, ev @ [Print (FoundOnSpotify (item_name top_result) a)]))))"

text \<open>
  The \<open>for i, track in enumerate(apple_tracks)\<close> loop, from index \<open>i\<close> on, with
  \<open>n = len(apple_tracks)\<close> and the two lists it appends to.
\<close>

fun find_loop ::
  "'w spotify \<Rightarrow> nat \<Rightarrow> nat \<Rightarrow> track list \<Rightarrow> spotify_track list \<Rightarrow> string list \<Rightarrow> 'w
     \<Rightarrow> spotify_track list \<times> string list \<times> 'w \<times> event list" where
  "find_loop sp n i [] found_tracks not_found_tracks w = (found_tracks, not_found_tracks, w, [])"
| "find_loop sp n i (t # ts) found_tracks not_found_tracks w =
     (case try_search sp t w of
        (r, w1, ev) \<Rightarrow>
          (case (case r of
                   Inr (Some f) \<Rightarrow> (found_tracks @ [f], not_found_tracks, [])
                 | Inr None \<Rightarrow> (found_tracks, not_found_tracks @ [artist t @ '' - '' @ name t], [])
                 | Inl e \<Rightarrow>
                     (found_tracks,
                      not_found_tracks @ [artist t @ '' - '' @ name t @ '' (Error during search)''],
                      [Print (SearchFailed (name t) e)])) of
             (found', not_found', ev') \<Rightarrow>
               (case find_loop sp n (i + 1) ts found' not_found' w1 of
                  (fs, nfs, w2, evs) \<Rightarrow>
                    (fs, nfs, w2,
                     Print (SearchingFor (i + 1) n (name t) (artist t)) # ev @ ev' @ evs))))"

definition find_spotify_tracks ::
  "'w spotify \<Rightarrow> track list \<Rightarrow> 'w \<Rightarrow> spotify_track list \<times> string list \<times> 'w \<times> event list" where
  "find_spotify_tracks sp apple_tracks w =
     (case find_loop sp (length apple_tracks) 0 apple_tracks [] [] w of
        (found_tracks, not_found_tracks, w', evs) \<Rightarrow>
          (found_tracks, not_found_tracks, w',
           Print SearchingSpotify # evs @ [Print SearchComplete]))"

text \<open>
  The outcome of one lookup, as the specification names it: the track found, or the
  descriptor of the track that was not.
\<close>

datatype match_result = Matched spotify_track | Unmatched string

text \<open>
  The two descriptors of an unmatched track, not found and failed search, and the
  matched track that a search result gives: the destination's artist, title and id.
  Reading the artist of a result that names none is an error.
\<close>

definition not_found :: "track \<Rightarrow> match_result" where
  "not_found t = Unmatched (artist t @ '' - '' @ name t)"

definition search_error :: "track \<Rightarrow> match_result" where
  "search_error t = Unmatched (artist t @ '' - '' @ name t @ '' (Error during search)'')"

definition matched :: "track \<Rightarrow> search_item \<Rightarrow> match_result" where
  "matched t item =
     (case item_artists item of
        [] \<Rightarrow> search_error t
      | a # _ \<Rightarrow> Matched \<lparr>artist = a, name = item_name item, track_id = item_id item\<rparr>)"

text \<open>
  The specification's \<open>match\<close> (its section 4.2) for one track, written from its
  five steps and not from the code, on the state \<open>w\<close> of the service: the search with
  the literal title; when that has no result and the cleaned title differs, the search
  with the cleaned title; a result at either step is the match; no result is the
  descriptor not found; an error at any point is the descriptor of a failed search. With
  the result comes the state the calls made leave.
\<close>

definition spec_match :: "'w spotify \<Rightarrow> track \<Rightarrow> 'w \<Rightarrow> match_result \<times> 'w" where
  "spec_match sp t w =
     (case search sp (''track:'' @ name t @ '' artist:'' @ artist t) w of
        (Inl e, w1) \<Rightarrow> (search_error t, w1)
      | (Inr (item # _), w1) \<Rightarrow> (matched t item, w1)
      | (Inr [], w1) \<Rightarrow>
          if cleaned_name (name t) = name t then (not_found t, w1)
          else
            (case search sp (''track:'' @ cleaned_name (name t) @ '' artist:'' @ artist t) w1 of
               (Inl e, w2) \<Rightarrow> (search_error t, w2)
             | (Inr (item # _), w2) \<Rightarrow> (matched t item, w2)
             | (Inr [], w2) \<Rightarrow> (not_found t, w2)))"

text \<open>
  \<open>match\<close> applied to each track in turn, on the state the lookups before it left:
  one result for each track.
\<close>

fun match_all :: "'w spotify \<Rightarrow> track list \<Rightarrow> 'w \<Rightarrow> match_result list" where
  "match_all sp [] w = []"
| "match_all sp (t # ts) w = (case spec_match sp t w of (r, w1) \<Rightarrow> r # match_all sp ts w1)"

fun matched_of :: "match_result list \<Rightarrow> spotify_track list" where
  "matched_of [] = []"
| "matched_of (Matched f # rs) = f # matched_of rs"
| "matched_of (Unmatched d # rs) = matched_of rs"

fun unmatched_of :: "match_result list \<Rightarrow> string list" where
  "unmatched_of [] = []"
| "unmatched_of (Matched f # rs) = unmatched_of rs"
| "unmatched_of (Unmatched d # rs) = d # unmatched_of rs"

text \<open>
  A result stands for a track: an unmatched descriptor is the track's artist and name,
  with or without the tag of a failed search.
\<close>

definition describes :: "track \<Rightarrow> match_result \<Rightarrow> bool" where
  "describes t r =
     (case r of
        Matched f \<Rightarrow> True
      | Unmatched d \<Rightarrow>
          d = artist t @ '' - '' @ name t
          \<or> d = artist t @ '' - '' @ name t @ '' (Error during search)'')"

text \<open>
  The lookups begun among some events: the position that each \<open>Searching for\<close>
  line prints, in order.
\<close>

fun lookups :: "event list \<Rightarrow> nat list" where
  "lookups [] = []"
| "lookups (Print (SearchingFor i n nm ar) # es) = i # lookups es"
| "lookups (e # es) = lookups es"

text \<open>The queries of the search calls among some events, in call order.\<close>

fun searches :: "event list \<Rightarrow> string list" where
  "searches [] = []"
| "searches (SpotifySearch q # es) = q # searches es"
| "searches (e # es) = searches es"

section \<open>update_spotify_playlist\<close>

text \<open>\<open>range(0, n, 100)\<close>.\<close>

definition chunk_starts :: "nat \<Rightarrow> nat list" where
  "chunk_starts n = map (\<lambda>k. k * 100) [0..<(n + 99) div 100]"

text \<open>
  The \<open>for i in range(0, len(sorted_track_ids), 100)\<close> loop over the starts still to
  do: it stops at the first call that raises.
\<close>

fun add_chunks ::
  "'w spotify \<Rightarrow> string \<Rightarrow> string list \<Rightarrow> nat list \<Rightarrow> 'w \<Rightarrow> exn option \<times> 'w \<times> event list" where
  "add_chunks sp playlist_id sorted_track_ids [] w = (None, w, [])"
| "add_chunks sp playlist_id sorted_track_ids (i # starts) w =
     (case playlist_add_items sp playlist_id (take 100 (drop i sorted_track_ids)) w of
        (Some e, w1) \<Rightarrow> (Some e, w1, [AddItems playlist_id (take 100 (drop i sorted_track_ids))])
      | (None, w1) \<Rightarrow>
          (case add_chunks sp playlist_id sorted_track_ids starts w1 of
             (r, w2, evs) \<Rightarrow>
               (r, w2, AddItems playlist_id (take 100 (drop i sorted_track_ids)) # evs)))"

text \<open>
  \<open>sorted(track_ids, key=lambda x: x['artist'].lower())\<close>. Python's \<open>sorted\<close> is
  a stable sort on the keys, which fixes its result; \<open>sort_key\<close> is one.
\<close>

definition sorted_tracks :: "spotify_track list \<Rightarrow> spotify_track list" where
  "sorted_tracks track_ids = sort_key (\<lambda>x. str_lower (artist x)) track_ids"

definition update_spotify_playlist ::
  "'w spotify \<Rightarrow> string \<Rightarrow> spotify_track list \<Rightarrow> 'w \<Rightarrow> 'w \<times> event list" where
  "update_spotify_playlist sp playlist_id track_ids w =
     (if track_ids = [] then (w, [Print NoTracksToAdd])
      else
        (let sorted_track_ids = map track_id (sorted_tracks track_ids);
             start = [Print SortingTracks, Print UpdatingPlaylist, ReplaceItems playlist_id []]
         in case playlist_replace_items sp playlist_id [] w of
              (Some e, w1) \<Rightarrow> (w1, start @ [Print (ErrorUpdating e)])
            | (None, w1) \<Rightarrow>
                (case add_chunks sp playlist_id sorted_track_ids
                        (chunk_starts (length sorted_track_ids)) w1 of
                   (Some e, w2, evs) \<Rightarrow> (w2, start @ evs @ [Print (ErrorUpdating e)])
                 | (None, w2, evs) \<Rightarrow> (w2, start @ evs @ [Print Success]))))"

text \<open>The destination write calls among some events, in call order.\<close>

fun is_write :: "event \<Rightarrow> bool" where
  "is_write (ReplaceItems p xs) = True"
| "is_write (AddItems p xs) = True"
| "is_write e = False"

definition writes :: "event list \<Rightarrow> event list" where
  "writes evs = filter is_write evs"

text \<open>
  The chunks \<open>sorted_track_ids[i:i + 100]\<close> for \<open>i\<close> in \<open>range(0, n, 100)\<close>.
\<close>

definition chunks :: "string list \<Rightarrow> string list list" where
  "chunks ids = map (\<lambda>i. take 100 (drop i ids)) (chunk_starts (length ids))"

section \<open>main\<close>

text \<open>
  Lines 197 to 203. \<open>console\<close> is what \<open>input\<close> returns, or the exception it
  raises, which nothing catches: the first component of the result is the exception
  that ends the run, if any.
\<close>

definition confirm ::
  "'w spotify \<Rightarrow> string \<Rightarrow> spotify_track list \<Rightarrow> exn + string \<Rightarrow> 'w
     \<Rightarrow> exn option \<times> 'w \<times> event list" where
  "confirm sp playlist_id spotify_tracks console w =
     (case console of
        Inl e \<Rightarrow> (Some e, w, [Input])
      | Inr line \<Rightarrow>
          (let proceed = str_lower line
           in if proceed = ''y''
              then (case update_spotify_playlist sp playlist_id spotify_tracks w of
                      (w', evs) \<Rightarrow> (None, w', Input # evs))
              else (None, w, [Input, Print SyncCancelled])))"

text \<open>The review of lines 174 to 190.\<close>

definition review :: "spotify_track list \<Rightarrow> string list \<Rightarrow> event list" where
  "review spotify_tracks not_found_tracks =
     [Print ReviewRule, Print ReviewTitle, Print ReviewRule]
     @ (if not_found_tracks \<noteq> []
        then Print NotFoundHeader # map (\<lambda>item. Print (NotFoundItem item)) not_found_tracks
        else [])
     @ (if spotify_tracks \<noteq> []
        then Print WillBeSyncedHeader
               # map (\<lambda>t. Print (SyncItem (artist t) (name t))) (sorted_tracks spotify_tracks)
        else [])
     @ [Print ReviewRule]"

text \<open>
  \<open>main\<close>. \<open>connect\<close> and \<open>console\<close> are as above, the two playlist ids are the
  constants read from the environment. The run may not return, when the fetch does not.
\<close>

definition main ::
  "'w spotify \<Rightarrow> exn + apple_music \<Rightarrow> string \<Rightarrow> string \<Rightarrow> exn + string \<Rightarrow> 'w
     \<Rightarrow> (exn option \<times> 'w \<times> event list) option" where
  "main sp connect APPLE_PLAYLIST_ID SPOTIFY_PLAYLIST_ID console w =
     (case me sp w of
        (Some e, w0) \<Rightarrow> Some (None, w0, [SpotifyMe, Print (CouldNotAuthenticate e)])
      | (None, w0) \<Rightarrow>
          (case get_apple_music_tracks connect APPLE_PLAYLIST_ID of
             None \<Rightarrow> None
           | Some (None, ev1) \<Rightarrow> Some (None, w0, SpotifyMe # ev1)
           | Some (Some apple_tracks, ev1) \<Rightarrow>
               if apple_tracks = [] then Some (None, w0, SpotifyMe # ev1)
               else
                 (case find_spotify_tracks sp apple_tracks w0 of
                    (spotify_tracks, not_found_tracks, w1, ev2) \<Rightarrow>
                      if spotify_tracks = []
                      then Some (None, w1,
                             SpotifyMe # ev1 @ ev2 @ review spotify_tracks not_found_tracks
                               @ [Print NoTracksToSync])
                      else
                        (case confirm sp SPOTIFY_PLAYLIST_ID spotify_tracks console w1 of
                           (r, w2, ev3) \<Rightarrow>
                             Some (r, w2,
                               SpotifyMe # ev1 @ ev2 @ review spotify_tracks not_found_tracks
                                 @ ev3)))))"

section \<open>A destination service\<close>

text \<open>
  The destination as its interface describes it: replacing sets the items of the
  playlist, adding appends to them, and a call that raises changes nothing. Which write
  calls raise is up to \<open>fails\<close>, asked with the number of write calls made before;
  \<open>answer\<close> is what a search returns.
\<close>

record destination =
  playlist :: "string list"
  calls :: nat

definition service ::
  "(string \<Rightarrow> exn + search_item list) \<Rightarrow> (nat \<Rightarrow> exn option) \<Rightarrow> destination spotify" where
  "service answer fails =
     \<lparr> me = (\<lambda>w. (None, w)),
       search = (\<lambda>query w. (answer query, w)),
       playlist_replace_items = (\<lambda>playlist_id items w.
          case fails (calls w) of
            Some e \<Rightarrow> (Some e, w\<lparr>calls := Suc (calls w)\<rparr>)
          | None \<Rightarrow> (None, \<lparr>playlist = items, calls = Suc (calls w)\<rparr>)),
       playlist_add_items = (\<lambda>playlist_id items w.
          case fails (calls w) of
            Some e \<Rightarrow> (Some e, w\<lparr>calls := Suc (calls w)\<rparr>)
          | None \<Rightarrow> (None, \<lparr>playlist = playlist w @ items, calls = Suc (calls w)\<rparr>)) \<rparr>"

section \<open>Sample inputs\<close>

text \<open>A destination where every search finds nothing and no call raises.\<close>

definition quiet :: "destination spotify" where
  "quiet = service (\<lambda>query. Inr []) (\<lambda>k. None)"

text \<open>A well-formed raw record, and one without \<open>'attributes'\<close>.\<close>

definition good_record :: raw_track where
  "good_record = \<lparr>attributes = Some [''artistName'' \<mapsto> ''Zeta'', ''name'' \<mapsto> ''Song'']\<rparr>"

definition bad_record :: raw_track where
  "bad_record = \<lparr>attributes = None\<rparr>"


text \<open>
  The matched tracks of the specification's example of the sort: \<open>Zeta\<close>,
  \<open>alpha\<close>, and \<open>Zeta\<close> again with another id.
\<close>

definition zeta_alpha_zeta :: "spotify_track list" where
  "zeta_alpha_zeta =
     [\<lparr>artist = ''Zeta'', name = ''One'', track_id = ''z1''\<rparr>,
      \<lparr>artist = ''alpha'', name = ''Two'', track_id = ''a''\<rparr>,
      \<lparr>artist = ''Zeta'', name = ''Three'', track_id = ''z2''\<rparr>]"



text \<open>Two matched tracks whose artists are the letters of codes 201 and 224.\<close>

definition accented :: "spotify_track list" where
  "accented =
     [\<lparr>artist = [CHR 0xC9], name = ''One'', track_id = ''E''\<rparr>,
      \<lparr>artist = [CHR 0xE0], name = ''Two'', track_id = ''a''\<rparr>]"

text \<open>Write calls that all succeed but the one after \<open>k\<close> others, which raises.\<close>

definition fails_at :: "nat \<Rightarrow> nat \<Rightarrow> exn option" where
  "fails_at k i = (if i = k then Some (ApiError ''boom'') else None)"

definition never_fails :: "nat \<Rightarrow> exn option" where
  "never_fails i = None"

definition finds_nothing :: "string \<Rightarrow> exn + search_item list" where
  "finds_nothing query = Inr []"

text \<open>
  A search that finds \<open>Song\<close> by \<open>Zeta\<close>, raises on \<open>Bad\<close> by \<open>X\<close>,
  finds for \<open>Ghost\<close> by \<open>X\<close> a result that names no artist, and finds nothing
  else; three source tracks to look up.
\<close>

definition sample_answer :: "string \<Rightarrow> exn + search_item list" where
  "sample_answer query =
     (if query = ''track:Song artist:Zeta''
      then Inr [\<lparr>item_id = ''z1'', item_name = ''Song'', item_artists = [''Zeta'']\<rparr>]
      else if query = ''track:Bad artist:X'' then Inl (ApiError ''boom'')
      else if query = ''track:Ghost artist:X''
      then Inr [\<lparr>item_id = ''g'', item_name = ''Ghost'', item_artists = []\<rparr>]
      else Inr [])"

definition sample_tracks :: "track list" where
  "sample_tracks =
     [\<lparr>artist = ''X'', name = ''Bad''\<rparr>,
      \<lparr>artist = ''Zeta'', name = ''Song (live)''\<rparr>,
      \<lparr>artist = ''X'', name = ''Other''\<rparr>]"

text \<open>A destination playlist that holds one track before the run.\<close>

definition old_state :: destination where
  "old_state = \<lparr>playlist = [''old''], calls = 0\<rparr>"

section \<open>Facts about the fetch\<close>

lemma page_requests_append: "page_requests (xs @ ys) = page_requests xs @ page_requests ys"
  by (induction xs rule: page_requests.induct) simp_all

lemma process_page_append: "process_page (xs @ ys) = process_page xs @ process_page ys"
  by (induction xs) (simp_all split: option.splits)

lemma process_page_unusable: "\<not> usable r \<Longrightarrow> process_page (r # rs) = process_page rs"
  by (auto simp: usable_def split: option.splits)

lemma length_process_page: "length (process_page rs) = length (filter usable rs)"
  by (induction rs) (auto simp: usable_def split: option.splits)

lemma process_page_split:
  "process_page (take 100 (drop off pl)) @ process_page (drop (off + 100) pl)
     = process_page (drop off pl)"
proof -
  have "drop (off + 100) pl = drop 100 (drop off pl)" by (simp add: add.commute)
  then have "process_page (take 100 (drop off pl)) @ process_page (drop (off + 100) pl)
      = process_page (take 100 (drop off pl) @ drop 100 (drop off pl))"
    by (simp only: process_page_append)
  then show ?thesis by (simp only: append_take_drop_id)
qed

lemma div_100_step:
  assumes "\<not> length (pl::'a list) - off < 100"
  shows "(length pl - off) div 100 = Suc ((length pl - (off + 100)) div 100)"
proof -
  from assms have "100 \<le> length pl - off" by simp
  then have "(length pl - off) div 100 = Suc ((length pl - off - 100) div 100)"
    by (rule le_div_geq [OF _ , rotated]) simp
  then show ?thesis by simp
qed

lemma offsets_shift:
  "off # map (\<lambda>k. off + 100 + 100 * k) [0..<n] = map (\<lambda>k. off + 100 * k) [0..<Suc n]"
proof -
  have "[0..<Suc n] = 0 # map Suc [0..<n]"
    by (simp add: upt_conv_Cons map_Suc_upt del: upt_Suc)
  then show ?thesis by (simp add: comp_def del: upt_Suc)
qed

text \<open>
  On a paged playlist the loop ends: it returns the usable records from \<open>off\<close> on and
  has asked for the pages at \<open>off\<close>, \<open>off + 100\<close>, ... up to the first short one.
\<close>

lemma fetch_loop_paged:
  "\<exists>out'. fetch_loop (paged pl) pid off acc out
       = Some (Inr (acc @ process_page (drop off pl)), out @ out')
     \<and> page_requests out' = map (\<lambda>k. off + 100 * k) [0..<Suc ((length pl - off) div 100)]"
proof (induction "length pl - off" arbitrary: off acc out rule: less_induct)
  case less
  show ?case
  proof (cases "length pl - off < 100")
    case True
    then have "take 100 (drop off pl) = drop off pl" by simp
    with True show ?thesis
      by (subst fetch_loop.simps) (simp add: paged_def)
  next
    case False
    then have lt: "length pl - (off + 100) < length pl - off" by simp
    note split = process_page_split [of off pl]
    note d = div_100_step [OF False]
    let ?acc = "acc @ process_page (take 100 (drop off pl))"
    let ?out = "out @ [AppleRequest pid 100 off] @ [Print (FetchedSoFar (length ?acc))]"
    from less [OF lt, of ?acc ?out]
    obtain out' where
      r: "fetch_loop (paged pl) pid (off + 100) ?acc ?out
         = Some (Inr (?acc @ process_page (drop (off + 100) pl)), ?out @ out')"
      and p: "page_requests out'
         = map (\<lambda>k. off + 100 + 100 * k) [0..<Suc ((length pl - (off + 100)) div 100)]"
      by blast
    let ?new = "AppleRequest pid 100 off # Print (FetchedSoFar (length ?acc)) # out'"
    have "fetch_loop (paged pl) pid off acc out
        = Some (Inr (acc @ process_page (drop off pl)), out @ ?new)"
      using False r split by (subst fetch_loop.simps) (simp add: paged_def Let_def)
    moreover have "page_requests ?new
        = map (\<lambda>k. off + 100 * k) [0..<Suc ((length pl - off) div 100)]"
      using p offsets_shift [of off "Suc ((length pl - (off + 100)) div 100)"]
      by (simp only: page_requests.simps d)
    ultimately show ?thesis by blast
  qed
qed

lemma fetch_paged:
  "\<exists>out. get_apple_music_tracks (Inr (paged pl)) pid = Some (Some (process_page pl), out)
     \<and> page_requests out = map (\<lambda>k. 100 * k) [0..<Suc (length pl div 100)]"
proof -
  from fetch_loop_paged [of pl pid 0 "[]" "[Print ConnectingApple, Print FetchingAll]"]
  obtain out' where
    r: "fetch_loop (paged pl) pid 0 [] [Print ConnectingApple, Print FetchingAll]
         = Some (Inr (process_page pl), [Print ConnectingApple, Print FetchingAll] @ out')"
    and p: "page_requests out' = map (\<lambda>k. 100 * k) [0..<Suc (length pl div 100)]"
    by auto
  let ?out = "([Print ConnectingApple, Print FetchingAll] @ out')
     @ [Print (FoundTotal (length (process_page pl)))]"
  from r have "get_apple_music_tracks (Inr (paged pl)) pid = Some (Some (process_page pl), ?out)"
    by (simp add: get_apple_music_tracks_def)
  moreover from p have "page_requests ?out = map (\<lambda>k. 100 * k) [0..<Suc (length pl div 100)]"
    by (simp add: page_requests_append)
  ultimately show ?thesis by blast
qed



lemma upt_0_3: "[0..<3] = [0, 1, 2]"
  by code_simp






text \<open>The 250 entries of the specification's example: three requests.\<close>

lemma fetch_250_example:
  "\<exists>out. get_apple_music_tracks (Inr (paged (replicate 250 good_record))) ''p''
       = Some (Some (process_page (replicate 250 good_record)), out)
     \<and> length (process_page (replicate 250 good_record)) = 250
     \<and> page_requests out = [0, 100, 200]
     \<and> map (\<lambda>off. length (take 100 (drop off (replicate 250 good_record)))) (page_requests out)
         = [100, 100, 50]"
proof -
  have "length (process_page (replicate 250 good_record)) = 250"
    by (simp add: length_process_page usable_def good_record_def)
  with fetch_paged [of "replicate 250 good_record" "''p''"] show ?thesis
    by (auto simp: upt_0_3)
qed

text \<open>
  C5. A record that fails the test of line 48 is left out of the result, and the
  end of the pagination does not depend on it: the page-size check counts the raw page,
  so the same requests are made whatever record stands in its place.
\<close>

theorem malformed_record_skipped:
  "\<exists>out out'.
     get_apple_music_tracks (Inr (paged (xs @ r # ys))) pid
       = Some (Some (process_page (xs @ r # ys)), out)
     \<and> get_apple_music_tracks (Inr (paged (xs @ r' # ys))) pid
       = Some (Some (process_page (xs @ r' # ys)), out')
     \<and> page_requests out = page_requests out'
     \<and> (\<not> usable r \<longrightarrow> process_page (xs @ r # ys) = process_page (xs @ ys))"
proof -
  from fetch_paged [of "xs @ r # ys" pid] obtain out where
    a: "get_apple_music_tracks (Inr (paged (xs @ r # ys))) pid
         = Some (Some (process_page (xs @ r # ys)), out)"
    and pa: "page_requests out = map (\<lambda>k. 100 * k) [0..<Suc (length (xs @ r # ys) div 100)]"
    by blast
  from fetch_paged [of "xs @ r' # ys" pid] obtain out' where
    b: "get_apple_music_tracks (Inr (paged (xs @ r' # ys))) pid
         = Some (Some (process_page (xs @ r' # ys)), out')"
    and pb: "page_requests out' = map (\<lambda>k. 100 * k) [0..<Suc (length (xs @ r' # ys) div 100)]"
    by blast
  from pa pb have "page_requests out = page_requests out'" by simp
  moreover have "process_page (xs @ r # ys) = process_page (xs @ ys)" if "\<not> usable r"
    using process_page_unusable [OF that] by (simp add: process_page_append)
  ultimately show ?thesis using a b by blast
qed

theorem malformed_record_skipped_witness:
  "\<not> usable bad_record
   \<and> (\<exists>out out'.
        get_apple_music_tracks (Inr (paged [good_record, bad_record])) ''p''
          = Some (Some [\<lparr>artist = ''Zeta'', name = ''Song''\<rparr>], out)
        \<and> get_apple_music_tracks (Inr (paged [good_record, good_record])) ''p''
          = Some (Some [\<lparr>artist = ''Zeta'', name = ''Song''\<rparr>, \<lparr>artist = ''Zeta'', name = ''Song''\<rparr>], out')
        \<and> page_requests out = page_requests out')"
proof -
  have u: "\<not> usable bad_record" by (simp add: usable_def bad_record_def)
  from malformed_record_skipped [of "[good_record]" bad_record "[]" "''p''" good_record] u
  show ?thesis by (simp add: good_record_def bad_record_def)
qed

section \<open>Facts about strings\<close>

lemma char_of_eq: "char_of (m::nat) = c \<longleftrightarrow> m mod 256 = of_char c"
proof
  assume "char_of m = c"
  then have "of_char (char_of m) = (of_char c :: nat)" by simp
  then show "m mod 256 = of_char c" by simp
next
  assume "m mod 256 = of_char c"
  then have "char_of (m mod 256) = char_of (of_char c :: nat)" by simp
  then show "char_of m = c" by simp
qed

lemma lower_char_y: "lower_char c = CHR ''y'' \<longleftrightarrow> c = CHR ''y'' \<or> c = CHR ''Y''"
proof -
  have y: "c = CHR ''y'' \<longleftrightarrow> (of_char c :: nat) = 121"
    using of_char_eq_iff [of c "CHR ''y''", where ?'a = nat] by simp
  have Y: "c = CHR ''Y'' \<longleftrightarrow> (of_char c :: nat) = 89"
    using of_char_eq_iff [of c "CHR ''Y''", where ?'a = nat] by simp
  have lt: "(of_char c :: nat) < 256" by simp
  show ?thesis
    unfolding lower_char_def Let_def y Y
    using lt by (auto simp: char_of_eq y)
qed

lemma str_lower_y: "str_lower s = ''y'' \<longleftrightarrow> s = ''y'' \<or> s = ''Y''"
  by (cases s) (auto simp: str_lower_def lower_char_y)

lemma match_group_has_group:
  "match_group opn cls s = Some after \<Longrightarrow> has_group opn cls s"
proof (induction s)
  case Nil
  then show ?case by (simp add: match_group_def)
next
  case (Cons c cs)
  show ?case
  proof (cases "is_space c")
    case True
    then have "match_group opn cls (c # cs) = match_group opn cls cs"
      by (simp add: match_group_def)
    with Cons show ?thesis by simp
  next
    case False
    with Cons.prems obtain x where c: "c = opn"
      and dx: "dropWhile (\<lambda>x. x \<noteq> cls) cs = x # after"
      by (simp add: match_group_def split: if_splits list.splits)
    from dx have d: "dropWhile (\<lambda>x. x \<noteq> cls) cs \<noteq> []" by simp
    from d have "hd (dropWhile (\<lambda>x. x \<noteq> cls) cs) = cls"
      using hd_dropWhile [of "\<lambda>x. x \<noteq> cls" cs] by simp
    moreover from d have "hd (dropWhile (\<lambda>x. x \<noteq> cls) cs) \<in> set cs"
      using set_dropWhileD [of _ "\<lambda>x. x \<noteq> cls" cs] hd_in_set by blast
    ultimately have "cls \<in> set cs" by simp
    with c show ?thesis by simp
  qed
qed

lemma re_sub_unchanged:
  assumes "\<not> has_group (CHR ''('') (CHR '')'') s" and "\<not> has_group (CHR ''['') (CHR '']'') s"
  shows "re_sub s = s"
  using assms
proof (induction s)
  case Nil
  then show ?case by simp
next
  case (Cons c cs)
  have a: "match_group (CHR ''('') (CHR '')'') (c # cs) = None"
  proof (rule ccontr)
    assume "match_group (CHR ''('') (CHR '')'') (c # cs) \<noteq> None"
    then obtain r where "match_group (CHR ''('') (CHR '')'') (c # cs) = Some r" by blast
    then have "has_group (CHR ''('') (CHR '')'') (c # cs)" by (rule match_group_has_group)
    with Cons.prems(1) show False by blast
  qed
  have b: "match_group (CHR ''['') (CHR '']'') (c # cs) = None"
  proof (rule ccontr)
    assume "match_group (CHR ''['') (CHR '']'') (c # cs) \<noteq> None"
    then obtain r where "match_group (CHR ''['') (CHR '']'') (c # cs) = Some r" by blast
    then have "has_group (CHR ''['') (CHR '']'') (c # cs)" by (rule match_group_has_group)
    with Cons.prems(2) show False by blast
  qed
  from Cons have "re_sub cs = cs" by simp
  with a b show ?case by simp
qed

lemma strip_unchanged:
  assumes "s = [] \<or> (\<not> is_space (hd s) \<and> \<not> is_space (last s))"
  shows "strip s = s"
proof (cases s)
  case Nil
  then show ?thesis by (simp add: strip_def)
next
  case (Cons c cs)
  with assms have h: "\<not> is_space c" and l: "\<not> is_space (last s)" by auto
  from h Cons have "dropWhile is_space s = s" by simp
  moreover from l Cons have "dropWhile is_space (rev s) = rev s"
    by (simp only: dropWhile_eq_self_iff hd_rev) simp
  ultimately show ?thesis by (simp add: strip_def)
qed

lemma searches_append: "searches (xs @ ys) = searches xs @ searches ys"
  by (induction xs rule: searches.induct) simp_all

text \<open>
  C7, as the claim states it, fails: a title with no parenthetical and no bracketed
  substring but with a space at its end is changed by the cleaning, which also trims, and
  the second search is made with the trimmed title.
\<close>

theorem cleaning_trims_counterexample:
  "\<not> has_group (CHR ''('') (CHR '')'') ''Song ''
   \<and> \<not> has_group (CHR ''['') (CHR '']'') ''Song ''
   \<and> cleaned_name ''Song '' = ''Song''
   \<and> cleaned_name ''Song '' \<noteq> ''Song ''
   \<and> searches (snd (snd (try_search quiet \<lparr>artist = ''X'', name = ''Song ''\<rparr>
         \<lparr>playlist = [], calls = 0\<rparr>)))
       = [''track:Song  artist:X'', ''track:Song artist:X'']"
proof -
  have r: "re_sub ''Song '' = ''Song ''"
    by (rule re_sub_unchanged) simp_all
  have c: "cleaned_name ''Song '' = ''Song''"
    unfolding cleaned_name_def r by (simp add: strip_def is_space_def)
  show ?thesis
    unfolding c
    by (simp add: try_search_def call_search_def quiet_def service_def c)
qed

text \<open>
  C7, amended. A title with no parenthetical and no bracketed substring, and with no
  whitespace at its start or end, is returned unchanged by the cleaning, and the lookup
  of a track with such a title makes one search only, the first.
\<close>

theorem clean_title_unchanged:
  assumes "\<not> has_group (CHR ''('') (CHR '')'') (name t)"
    and "\<not> has_group (CHR ''['') (CHR '']'') (name t)"
    and "name t = [] \<or> (\<not> is_space (hd (name t)) \<and> \<not> is_space (last (name t)))"
  shows "cleaned_name (name t) = name t
    \<and> searches (snd (snd (try_search sp t w))) = [''track:'' @ name t @ '' artist:'' @ artist t]"
proof -
  have c: "cleaned_name (name t) = name t"
    unfolding cleaned_name_def re_sub_unchanged [OF assms(1,2)]
    by (rule strip_unchanged [OF assms(3)])
  obtain r w1 where s: "search sp (''track:'' @ name t @ '' artist:'' @ artist t) w = (r, w1)"
    by (cases "search sp (''track:'' @ name t @ '' artist:'' @ artist t) w")
  have "searches (snd (snd (try_search sp t w)))
      = [''track:'' @ name t @ '' artist:'' @ artist t]"
    unfolding try_search_def call_search_def c s
    by (simp add: searches_append split: sum.splits list.splits)
  with c show ?thesis by simp
qed

theorem clean_title_unchanged_witness:
  "\<not> has_group (CHR ''('') (CHR '')'') ''Song''
   \<and> \<not> has_group (CHR ''['') (CHR '']'') ''Song''
   \<and> \<not> is_space (hd ''Song'') \<and> \<not> is_space (last ''Song'')
   \<and> cleaned_name ''Song'' = ''Song''
   \<and> searches (snd (snd (try_search quiet \<lparr>artist = ''X'', name = ''Song''\<rparr>
         \<lparr>playlist = [], calls = 0\<rparr>))) = [''track:Song artist:X'']"
proof -
  have a: "\<not> has_group (CHR ''('') (CHR '')'') ''Song''" by simp
  have b: "\<not> has_group (CHR ''['') (CHR '']'') ''Song''" by simp
  have c: "\<not> is_space (hd ''Song'') \<and> \<not> is_space (last ''Song'')"
    by (simp add: is_space_def)
  from clean_title_unchanged [of "\<lparr>artist = ''X'', name = ''Song''\<rparr>" quiet
      "\<lparr>playlist = [], calls = 0\<rparr>"] a b c
  show ?thesis by simp
qed

text \<open>A no-break space at the end of a title is whitespace too, and is trimmed.\<close>

lemma cleaning_trims_no_break_space: "cleaned_name (''Song'' @ [CHR 0xA0]) = ''Song''"
  by code_simp

text \<open>
  C10. The line read is lowercased and compared with \<open>y\<close>: the update runs on
  the lines \<open>y\<close> and \<open>Y\<close> and on no other, and every other line cancels.
\<close>

theorem confirmation_exact:
  "confirm sp playlist_id spotify_tracks (Inr line) w =
     (if line = ''y'' \<or> line = ''Y''
      then (case update_spotify_playlist sp playlist_id spotify_tracks w of
              (w', evs) \<Rightarrow> (None, w', Input # evs))
      else (None, w, [Input, Print SyncCancelled]))"
  by (simp add: confirm_def str_lower_y)

text \<open>The lines the claim names: \<open>yes\<close>, \<open>y\<close> after a space, and the empty line.\<close>

lemma confirmation_examples:
  "confirm sp playlist_id spotify_tracks (Inr ''yes'') w = (None, w, [Input, Print SyncCancelled])"
  "confirm sp playlist_id spotify_tracks (Inr '' y'') w = (None, w, [Input, Print SyncCancelled])"
  "confirm sp playlist_id spotify_tracks (Inr ''y '') w = (None, w, [Input, Print SyncCancelled])"
  "confirm sp playlist_id spotify_tracks (Inr '''') w = (None, w, [Input, Print SyncCancelled])"
  by (simp_all add: confirm_def str_lower_y)

section \<open>Facts about the update\<close>

lemma writes_append: "writes (xs @ ys) = writes xs @ writes ys"
  by (simp add: writes_def)


lemma chunks_alt:
  "chunks ids = map (\<lambda>k. take 100 (drop (k * 100) ids)) [0..<(length ids + 99) div 100]"
  by (simp add: chunks_def chunk_starts_def comp_def)

lemma concat_first_chunks:
  "concat (map (\<lambda>k. take 100 (drop (k * 100) ids)) [0..<m]) = take (m * 100) ids"
proof (induction m)
  case 0
  then show ?case by simp
next
  case (Suc m)
  have "take (m * 100) ids @ take 100 (drop (m * 100) ids) = take (m * 100 + 100) ids"
    by (simp add: take_add)
  with Suc show ?case by (simp add: add.commute)
qed

lemma concat_chunks: "concat (chunks ids) = ids"
proof -
  have "length ids \<le> (length ids + 99) div 100 * 100" by arith
  then show ?thesis by (simp add: chunks_alt concat_first_chunks)
qed



text \<open>The events of the loop are the calls it made, one for each start it reached.\<close>

lemma add_chunks_done:
  "add_chunks sp p ids starts w = (None, w', evs)
     \<Longrightarrow> evs = map (\<lambda>i. AddItems p (take 100 (drop i ids))) starts"
proof (induction starts arbitrary: w w' evs)
  case Nil
  then show ?case by simp
next
  case (Cons i starts)
  then show ?case
    by (auto split: prod.splits option.splits)
qed

lemma add_chunks_events:
  "add_chunks sp p ids starts w = (r, w', evs)
     \<Longrightarrow> \<exists>k. evs = map (\<lambda>i. AddItems p (take 100 (drop i ids))) (take k starts)"
proof (induction starts arbitrary: w r w' evs)
  case Nil
  then show ?case by simp
next
  case (Cons i starts)
  obtain r1 w1 where a: "playlist_add_items sp p (take 100 (drop i ids)) w = (r1, w1)"
    by (cases "playlist_add_items sp p (take 100 (drop i ids)) w")
  show ?case
  proof (cases r1)
    case (Some e)
    with a Cons.prems have "evs = [AddItems p (take 100 (drop i ids))]" by simp
    then have "evs = map (\<lambda>i. AddItems p (take 100 (drop i ids))) (take 1 (i # starts))"
      by simp
    then show ?thesis by blast
  next
    case None
    obtain r2 w2 evs2 where b: "add_chunks sp p ids starts w1 = (r2, w2, evs2)"
      by (cases "add_chunks sp p ids starts w1")
    from Cons.IH [OF b] obtain k where
      k: "evs2 = map (\<lambda>i. AddItems p (take 100 (drop i ids))) (take k starts)" by blast
    from a None b Cons.prems have "evs = AddItems p (take 100 (drop i ids)) # evs2" by simp
    with k have "evs = map (\<lambda>i. AddItems p (take 100 (drop i ids))) (take (Suc k) (i # starts))"
      by simp
    then show ?thesis by blast
  qed
qed

lemma add_chunks_no_print:
  assumes "add_chunks sp p ids starts w = (r, w', evs)"
  shows "Print m \<notin> set evs"
proof -
  from add_chunks_events [OF assms] obtain k where
    "evs = map (\<lambda>i. AddItems p (take 100 (drop i ids))) (take k starts)" by blast
  then show ?thesis by auto
qed

lemma map_chunk_starts:
  "map (\<lambda>i. AddItems p (take 100 (drop i ids))) (chunk_starts (length ids))
     = map (AddItems p) (chunks ids)"
  by (simp add: chunks_def comp_def)

text \<open>
  An update that printed its success made the replace call and then every append call.
\<close>

lemma update_success:
  assumes "track_ids \<noteq> []"
    and "update_spotify_playlist sp p track_ids w = (w', evs)"
    and "Print Success \<in> set evs"
  shows "\<exists>w1 w2 adds.
      playlist_replace_items sp p [] w = (None, w1)
      \<and> add_chunks sp p (map track_id (sorted_tracks track_ids))
           (chunk_starts (length (map track_id (sorted_tracks track_ids)))) w1 = (None, w2, adds)
      \<and> w' = w2
      \<and> evs = [Print SortingTracks, Print UpdatingPlaylist, ReplaceItems p []]
           @ map (AddItems p) (chunks (map track_id (sorted_tracks track_ids)))
           @ [Print Success]"
proof -
  let ?ids = "map track_id (sorted_tracks track_ids)"
  obtain r1 w1 where a: "playlist_replace_items sp p [] w = (r1, w1)"
    by (cases "playlist_replace_items sp p [] w")
  obtain r2 w2 adds where b: "add_chunks sp p ?ids (chunk_starts (length ?ids)) w1 = (r2, w2, adds)"
    by (cases "add_chunks sp p ?ids (chunk_starts (length ?ids)) w1")
  note np = add_chunks_no_print [OF b, of Success]
  from assms a b np have r1: "r1 = None"
    by (cases r1) (auto simp: update_spotify_playlist_def Let_def)
  from assms a b np r1 have r2: "r2 = None"
    by (cases r2) (auto simp: update_spotify_playlist_def Let_def)
  from add_chunks_done [OF b [unfolded r2]] have adds: "adds = map (AddItems p) (chunks ?ids)"
    by (simp only: map_chunk_starts)
  from assms(1,2) a b r1 r2 adds
  have "w' = w2" and "evs = [Print SortingTracks, Print UpdatingPlaylist, ReplaceItems p []]
           @ map (AddItems p) (chunks ?ids) @ [Print Success]"
    by (simp_all add: update_spotify_playlist_def Let_def)
  with a b r1 r2 show ?thesis by blast
qed



text \<open>On the destination service: what the calls that went through did to the playlist.\<close>

lemma service_replace_done:
  "playlist_replace_items (service answer fails) p items w = (None, w1) \<Longrightarrow> playlist w1 = items"
  by (auto simp: service_def split: option.splits)

lemma service_add_chunks_done:
  "add_chunks (service answer fails) p ids starts w = (None, w', evs)
     \<Longrightarrow> playlist w' = playlist w @ concat (map (\<lambda>i. take 100 (drop i ids)) starts)"
proof (induction starts arbitrary: w w' evs)
  case Nil
  then show ?case by simp
next
  case (Cons i starts)
  let ?c = "take 100 (drop i ids)"
  obtain r1 w1 where a: "playlist_add_items (service answer fails) p ?c w = (r1, w1)"
    by (cases "playlist_add_items (service answer fails) p ?c w")
  obtain r2 w2 evs2 where b: "add_chunks (service answer fails) p ids starts w1 = (r2, w2, evs2)"
    by (cases "add_chunks (service answer fails) p ids starts w1")
  from Cons.prems a b have r1: "r1 = None" and r2: "r2 = None" and w: "w' = w2"
    by (auto split: option.splits)
  from a r1 have "playlist w1 = playlist w @ ?c"
    by (auto simp: service_def split: option.splits)
  moreover from Cons.IH [OF b [unfolded r2]]
  have "playlist w2 = playlist w1 @ concat (map (\<lambda>i. take 100 (drop i ids)) starts)" .
  ultimately show ?case using w by simp
qed

lemma service_add_chunks_fail:
  assumes "j < length starts"
    and "fails (calls w + j) = Some e"
    and "\<forall>i<j. fails (calls w + i) = None"
  shows "add_chunks (service answer fails) p ids starts w
    = (Some e,
       \<lparr>playlist = playlist w @ concat (map (\<lambda>i. take 100 (drop i ids)) (take j starts)),
        calls = calls w + Suc j\<rparr>,
       map (\<lambda>i. AddItems p (take 100 (drop i ids))) (take (Suc j) starts))"
  using assms
proof (induction starts arbitrary: w j)
  case Nil
  then show ?case by simp
next
  case (Cons i starts)
  show ?case
  proof (cases j)
    case 0
    with Cons.prems show ?thesis by (simp add: service_def)
  next
    case (Suc j')
    let ?w1 = "\<lparr>playlist = playlist w @ take 100 (drop i ids), calls = Suc (calls w)\<rparr>"
    from Cons.prems(3) Suc have f0: "fails (calls w) = None" by force
    then have a: "playlist_add_items (service answer fails) p (take 100 (drop i ids)) w
        = (None, ?w1)"
      by (simp add: service_def)
    from Cons.prems Suc have j': "j' < length starts" by simp
    from Cons.prems(2) Suc have fj: "fails (calls ?w1 + j') = Some e" by simp
    have fi: "\<forall>i<j'. fails (calls ?w1 + i) = None"
    proof (intro allI impI)
      fix i assume "i < j'"
      then have "Suc i < j" using Suc by simp
      with Cons.prems(3) have "fails (calls w + Suc i) = None" by blast
      then show "fails (calls ?w1 + i) = None" by simp
    qed
    from Cons.IH [OF j' fj fi] a Suc show ?thesis by simp
  qed
qed

text \<open>The example of the sort, run on a destination where no call raises.\<close>

lemma sorted_example: "map track_id (sorted_tracks zeta_alpha_zeta) = [''a'', ''z1'', ''z2'']"
  by code_simp

lemma chunks_example: "chunks [''a'', ''z1'', ''z2''] = [[''a'', ''z1'', ''z2'']]"
  by code_simp

lemma update_example:
  "update_spotify_playlist (service finds_nothing never_fails) ''pl'' zeta_alpha_zeta old_state
     = (\<lparr>playlist = [''a'', ''z1'', ''z2''], calls = 2\<rparr>,
        [Print SortingTracks, Print UpdatingPlaylist, ReplaceItems ''pl'' [],
         AddItems ''pl'' [''a'', ''z1'', ''z2''], Print Success])"
proof -
  have "zeta_alpha_zeta \<noteq> []"
    by (simp add: zeta_alpha_zeta_def)
  then show ?thesis
    by (simp add: update_spotify_playlist_def sorted_example chunk_starts_def service_def
        never_fails_def old_state_def Let_def)
qed

text \<open>
  Capitals beyond ASCII are lowered for the sort as well: the artist of code 201 has the
  key of code 233 and comes after the artist of code 224.
\<close>

lemma accented_example: "map track_id (sorted_tracks accented) = [''a'', ''E'']"
  by code_simp



text \<open>
  C8. With no matched track the update makes no call at all: it prints that there
  is nothing to add and returns, the destination in the state it was in.
\<close>

theorem empty_update_noop:
  "update_spotify_playlist sp playlist_id [] w = (w, [Print NoTracksToAdd])
   \<and> writes (snd (update_spotify_playlist sp playlist_id [] w)) = []"
  by (simp add: update_spotify_playlist_def writes_def)



text \<open>The 250 tracks of the specification's example: appends of 100, 100 and 50 ids.\<close>

lemma chunks_250_example: "length ids = 250 \<Longrightarrow> map length (chunks ids) = [100, 100, 50]"
  by (simp add: chunks_alt upt_0_3)

text \<open>
  C2. After an update of a non-empty list that went through, the destination
  playlist holds the ids of the sorted list and nothing else. The sorted list is in
  order of the lowercased artist names, it has the tracks of the input, each as often,
  and the tracks of equal lowercased artist name stand in it in their input order.
\<close>

theorem update_sorted_playlist:
  assumes "track_ids \<noteq> []"
    and "update_spotify_playlist (service answer fails) playlist_id track_ids w = (w', evs)"
    and "Print Success \<in> set evs"
  shows "playlist w' = map track_id (sorted_tracks track_ids)
    \<and> sorted (map (\<lambda>x. str_lower (artist x)) (sorted_tracks track_ids))
    \<and> mset (sorted_tracks track_ids) = mset track_ids
    \<and> (\<forall>k. filter (\<lambda>x. str_lower (artist x) = k) (sorted_tracks track_ids)
            = filter (\<lambda>x. str_lower (artist x) = k) track_ids)"
proof -
  let ?ids = "map track_id (sorted_tracks track_ids)"
  from update_success [OF assms] obtain w1 adds where
    a: "playlist_replace_items (service answer fails) playlist_id [] w = (None, w1)"
    and b: "add_chunks (service answer fails) playlist_id ?ids (chunk_starts (length ?ids)) w1
        = (None, w', adds)"
    by blast
  from service_replace_done [OF a] have "playlist w1 = []" .
  with service_add_chunks_done [OF b]
  have "playlist w' = concat (chunks ?ids)"
    by (simp add: chunks_def)
  then have "playlist w' = ?ids"
    by (simp only: concat_chunks)
  moreover have "sorted (map (\<lambda>x. str_lower (artist x)) (sorted_tracks track_ids))"
    by (simp add: sorted_tracks_def)
  moreover have "mset (sorted_tracks track_ids) = mset track_ids"
    by (simp add: sorted_tracks_def)
  moreover have "\<forall>k. filter (\<lambda>x. str_lower (artist x) = k) (sorted_tracks track_ids)
      = filter (\<lambda>x. str_lower (artist x) = k) track_ids"
    by (simp add: sorted_tracks_def sort_key_stable)
  ultimately show ?thesis by blast
qed

theorem update_sorted_playlist_witness:
  "zeta_alpha_zeta \<noteq> []
   \<and> Print Success \<in> set (snd (update_spotify_playlist (service finds_nothing never_fails)
         ''pl'' zeta_alpha_zeta old_state))
   \<and> playlist (fst (update_spotify_playlist (service finds_nothing never_fails)
         ''pl'' zeta_alpha_zeta old_state)) = [''a'', ''z1'', ''z2'']"
proof -
  note s = sorted_example
  have n: "zeta_alpha_zeta \<noteq> []"
    by (simp add: zeta_alpha_zeta_def)
  note u = update_example
  have p: "Print Success \<in> set (snd (update_spotify_playlist (service finds_nothing never_fails)
         ''pl'' zeta_alpha_zeta old_state))"
    by (simp add: u)
  from update_sorted_playlist [OF n prod.collapse [symmetric] p] show ?thesis
    using n p by (simp add: s)
qed

text \<open>
  C9. On the destination service, let the write call after \<open>j\<close> others be the
  first to raise, with \<open>e\<close>: \<open>j = 0\<close> is the replace call and \<open>j > 0\<close> the append of
  chunk \<open>j\<close>. Then the update makes that call and no call after it, and prints the
  error last and no success. Nothing is undone: the playlist is as the calls before left
  it, untouched when the replace call raised and otherwise emptied and then filled with
  the chunks before the failing one.
\<close>

theorem update_failure:
  assumes "track_ids \<noteq> []"
    and "j \<le> length (chunks (map track_id (sorted_tracks track_ids)))"
    and "fails (calls w + j) = Some e"
    and "\<forall>i<j. fails (calls w + i) = None"
  shows "update_spotify_playlist (service answer fails) playlist_id track_ids w
    = (\<lparr>playlist = (if j = 0 then playlist w
                     else concat (take (j - 1) (chunks (map track_id (sorted_tracks track_ids))))),
        calls = calls w + Suc j\<rparr>,
       [Print SortingTracks, Print UpdatingPlaylist]
       @ take (Suc j) (ReplaceItems playlist_id []
            # map (AddItems playlist_id) (chunks (map track_id (sorted_tracks track_ids))))
       @ [Print (ErrorUpdating e)])"
proof (cases j)
  case 0
  with assms(1,3) show ?thesis
    by (simp add: update_spotify_playlist_def service_def)
next
  case (Suc j')
  let ?ids = "map track_id (sorted_tracks track_ids)"
  let ?w1 = "\<lparr>playlist = [], calls = Suc (calls w)\<rparr>"
  from assms(4) Suc have "fails (calls w) = None" by force
  then have a: "playlist_replace_items (service answer fails) playlist_id [] w = (None, ?w1)"
    by (simp add: service_def)
  from assms(2) Suc have j': "j' < length (chunk_starts (length ?ids))"
    by (simp add: chunks_def)
  from assms(3) Suc have fj: "fails (calls ?w1 + j') = Some e" by simp
  have fi: "\<forall>i<j'. fails (calls ?w1 + i) = None"
  proof (intro allI impI)
    fix i assume "i < j'"
    then have "Suc i < j" using Suc by simp
    with assms(4) have "fails (calls w + Suc i) = None" by blast
    then show "fails (calls ?w1 + i) = None" by simp
  qed
  note b = service_add_chunks_fail [OF j' fj fi, of answer playlist_id ?ids]
  have m: "map (\<lambda>i. take 100 (drop i ?ids)) (take j' (chunk_starts (length ?ids)))
      = take j' (chunks ?ids)"
    by (simp add: chunks_def take_map)
  have e: "map (\<lambda>i. AddItems playlist_id (take 100 (drop i ?ids)))
        (take (Suc j') (chunk_starts (length ?ids)))
      = take (Suc j') (map (AddItems playlist_id) (chunks ?ids))"
    by (simp only: take_map [symmetric] map_chunk_starts)
  from assms(1) a b Suc show ?thesis
    unfolding m e by (simp add: update_spotify_playlist_def Let_def)
qed

theorem update_failure_witness:
  "zeta_alpha_zeta \<noteq> []
   \<and> 1 \<le> length (chunks (map track_id (sorted_tracks zeta_alpha_zeta)))
   \<and> fails_at 1 (calls old_state + 1) = Some (ApiError ''boom'')
   \<and> fails_at 1 (calls old_state + 0) = None
   \<and> update_spotify_playlist (service finds_nothing (fails_at 1)) ''pl'' zeta_alpha_zeta old_state
       = (\<lparr>playlist = [], calls = 2\<rparr>,
          [Print SortingTracks, Print UpdatingPlaylist, ReplaceItems ''pl'' [],
           AddItems ''pl'' [''a'', ''z1'', ''z2''], Print (ErrorUpdating (ApiError ''boom''))])"
proof -
  note s = sorted_example
  note c = chunks_example
  have n: "zeta_alpha_zeta \<noteq> []"
    by (simp add: zeta_alpha_zeta_def)
  have l: "1 \<le> length (chunks (map track_id (sorted_tracks zeta_alpha_zeta)))"
    by (simp add: s c)
  have f: "fails_at 1 (calls old_state + 1) = Some (ApiError ''boom'')"
    by (simp add: fails_at_def old_state_def)
  have g: "\<forall>i<1. fails_at 1 (calls old_state + i) = None"
    by (simp add: fails_at_def old_state_def)
  from update_failure [OF n l f g, of finds_nothing "''pl''"] show ?thesis
    using n l f g by (simp add: s c old_state_def)
qed

section \<open>Facts about the matcher\<close>

lemma length_match_all: "length (match_all sp ts w) = length ts"
  by (induction ts arbitrary: w) (auto split: prod.splits)

lemma length_matched_unmatched: "length (matched_of rs) + length (unmatched_of rs) = length rs"
  by (induction rs rule: matched_of.induct) simp_all

lemma spec_match_describes: "describes t (fst (spec_match sp t w))"
  by (auto simp: spec_match_def describes_def not_found_def search_error_def matched_def
      split: prod.splits sum.splits list.splits)

lemma match_all_describes: "list_all2 describes ts (match_all sp ts w)"
proof (induction ts arbitrary: w)
  case Nil
  then show ?case by simp
next
  case (Cons t ts)
  obtain r w1 where a: "spec_match sp t w = (r, w1)"
    by (cases "spec_match sp t w")
  with spec_match_describes [of t sp w] have "describes t r" by simp
  with a Cons [of w1] show ?case by simp
qed

text \<open>
  The code's lookup of one track agrees with the specification's \<open>match\<close>: the same
  result, an exception standing for the descriptor of a failed search, and the same state
  of the service after it.
\<close>

lemma try_search_spec:
  assumes "try_search sp t w = (r, w1, ev)"
  shows "spec_match sp t w
    = ((case r of
          Inr (Some f) \<Rightarrow> Matched f
        | Inr None \<Rightarrow> not_found t
        | Inl e \<Rightarrow> search_error t), w1)"
proof -
  obtain r1 u1 where a: "search sp (''track:'' @ name t @ '' artist:'' @ artist t) w = (r1, u1)"
    by (cases "search sp (''track:'' @ name t @ '' artist:'' @ artist t) w")
  obtain r2 u2 where
    b: "search sp (''track:'' @ cleaned_name (name t) @ '' artist:'' @ artist t) u1 = (r2, u2)"
    by (cases "search sp (''track:'' @ cleaned_name (name t) @ '' artist:'' @ artist t) u1")
  show ?thesis
  proof (cases r1)
    case (Inl e)
    with assms a show ?thesis
      by (auto simp: try_search_def call_search_def spec_match_def)
  next
    case (Inr items1)
    show ?thesis
    proof (cases items1)
      case (Cons item rest)
      with assms a Inr show ?thesis
        by (auto simp: try_search_def call_search_def spec_match_def matched_def
            split: list.splits)
    next
      case Nil
      show ?thesis
      proof (cases "cleaned_name (name t) = name t")
        case True
        with assms a Inr Nil show ?thesis
          by (auto simp: try_search_def call_search_def spec_match_def)
      next
        case False
        show ?thesis
        proof (cases r2)
          case (Inl e)
          with assms a Inr Nil False b show ?thesis
            by (auto simp: try_search_def call_search_def spec_match_def)
        next
          case r2: (Inr items2)
          with assms a Inr Nil False b show ?thesis
            by (cases items2)
              (auto simp: try_search_def call_search_def spec_match_def matched_def
                split: list.splits)
        qed
      qed
    qed
  qed
qed

lemma lookups_append: "lookups (xs @ ys) = lookups xs @ lookups ys"
  by (induction xs rule: lookups.induct) simp_all

lemma writes_try_search: "try_search sp t w = (r, w', ev) \<Longrightarrow> writes ev = []"
  by (auto simp: try_search_def call_search_def writes_def
      split: prod.splits sum.splits list.splits if_splits)

lemma lookups_try_search: "try_search sp t w = (r, w', ev) \<Longrightarrow> lookups ev = []"
  by (auto simp: try_search_def call_search_def
      split: prod.splits sum.splits list.splits if_splits)

text \<open>
  The loop gives one result for each track left, the found ones appended to one list and
  the descriptors of the others to the other list, both in the order of the tracks.
\<close>

lemma find_loop_results:
  "find_loop sp n i ts found nf w = (fs, nfs, w', evs)
     \<Longrightarrow> fs = found @ matched_of (match_all sp ts w)
       \<and> nfs = nf @ unmatched_of (match_all sp ts w)
       \<and> lookups evs = map Suc [i..<i + length ts]
       \<and> writes evs = []"
proof (induction ts arbitrary: i found nf w fs nfs w' evs)
  case Nil
  then show ?case by (simp add: writes_def)
next
  case (Cons t ts)
  obtain r w1 ev where a: "try_search sp t w = (r, w1, ev)"
    by (cases "try_search sp t w")
  define step where "step =
    (case r of
       Inr (Some f) \<Rightarrow> (found @ [f], nf, [])
     | Inr None \<Rightarrow> (found, nf @ [artist t @ '' - '' @ name t], [])
     | Inl e \<Rightarrow>
         (found, nf @ [artist t @ '' - '' @ name t @ '' (Error during search)''],
          [Print (SearchFailed (name t) e)]))"
  obtain found' nf' ev' where st: "step = (found', nf', ev')"
    by (cases step)
  obtain fs2 nfs2 w2 evs2 where
    b: "find_loop sp n (i + 1) ts found' nf' w1 = (fs2, nfs2, w2, evs2)"
    by (cases "find_loop sp n (i + 1) ts found' nf' w1")
  have "find_loop sp n i (t # ts) found nf w
      = (fs2, nfs2, w2, Print (SearchingFor (i + 1) n (name t) (artist t)) # ev @ ev' @ evs2)"
    using a st b by (simp add: step_def)
  with Cons.prems have fs: "fs = fs2" and nfs: "nfs = nfs2"
    and evs: "evs = Print (SearchingFor (i + 1) n (name t) (artist t)) # ev @ ev' @ evs2"
    by simp_all
  from st have ev': "lookups ev' = []" "writes ev' = []"
    by (auto simp: step_def writes_def split: sum.splits option.splits)
  note sm = try_search_spec [OF a]
  from st sm have m: "found' @ matched_of (match_all sp ts w1)
      = found @ matched_of (match_all sp (t # ts) w)"
    by (auto simp: step_def not_found_def search_error_def split: sum.splits option.splits)
  from st sm have u: "nf' @ unmatched_of (match_all sp ts w1)
      = nf @ unmatched_of (match_all sp (t # ts) w)"
    by (auto simp: step_def not_found_def search_error_def split: sum.splits option.splits)
  have up: "map Suc [i..<i + length (t # ts)] = Suc i # map Suc [i + 1..<i + 1 + length ts]"
    by (simp add: upt_conv_Cons del: upt_Suc)
  from Cons.IH [OF b] have ih: "fs2 = found' @ matched_of (match_all sp ts w1)"
    "nfs2 = nf' @ unmatched_of (match_all sp ts w1)"
    "lookups evs2 = map Suc [i + 1..<i + 1 + length ts]"
    "writes evs2 = []"
    by simp_all
  have "lookups evs = Suc i # lookups evs2"
    unfolding evs using ev'(1) lookups_try_search [OF a] by (simp add: lookups_append)
  then have "lookups evs = map Suc [i..<i + length (t # ts)]"
    unfolding up ih(3) .
  moreover have "writes evs = []"
    unfolding evs using ev'(2) writes_try_search [OF a] ih(4)
    by (simp add: writes_append) (simp add: writes_def)
  ultimately show ?case
    unfolding fs nfs ih(1,2) m u by simp
qed

lemma find_spotify_tracks_results:
  assumes "find_spotify_tracks sp apple_tracks w = (found_tracks, not_found_tracks, w', evs)"
  shows "found_tracks = matched_of (match_all sp apple_tracks w)"
    and "not_found_tracks = unmatched_of (match_all sp apple_tracks w)"
    and "lookups evs = map Suc [0..<length apple_tracks]"
    and "writes evs = []"
proof -
  obtain fs nfs w2 evs2 where
    a: "find_loop sp (length apple_tracks) 0 apple_tracks [] [] w = (fs, nfs, w2, evs2)"
    by (cases "find_loop sp (length apple_tracks) 0 apple_tracks [] [] w")
  from assms a have e: "found_tracks = fs" "not_found_tracks = nfs"
    "evs = Print SearchingSpotify # evs2 @ [Print SearchComplete]"
    by (simp_all add: find_spotify_tracks_def)
  from find_loop_results [OF a] e
  show "found_tracks = matched_of (match_all sp apple_tracks w)"
    and "not_found_tracks = unmatched_of (match_all sp apple_tracks w)"
    and "lookups evs = map Suc [0..<length apple_tracks]"
    and "writes evs = []"
    by (simp_all add: lookups_append writes_append) (simp add: writes_def)
qed

text \<open>What the sample search does at the queries of the examples.\<close>

lemma sample_cleaned:
  "cleaned_name ''Song (live)'' = ''Song''"
  "cleaned_name ''Bad (live)'' = ''Bad''"
  "cleaned_name ''Ghost (live)'' = ''Ghost''"
  "cleaned_name ''Other'' = ''Other''"
  by code_simp+

lemma sample_searches:
  "search (service sample_answer never_fails) ''track:Bad artist:X'' s
     = (Inl (ApiError ''boom''), s)"
  "search (service sample_answer never_fails) ''track:Bad (live) artist:X'' s = (Inr [], s)"
  "search (service sample_answer never_fails) ''track:Ghost artist:X'' s
     = (Inr [\<lparr>item_id = ''g'', item_name = ''Ghost'', item_artists = []\<rparr>], s)"
  "search (service sample_answer never_fails) ''track:Ghost (live) artist:X'' s = (Inr [], s)"
  by (simp_all add: service_def sample_answer_def)

lemma sample_find:
  "find_spotify_tracks (service sample_answer never_fails) sample_tracks old_state
     = ([\<lparr>artist = ''Zeta'', name = ''Song'', track_id = ''z1''\<rparr>],
        [''X - Bad (Error during search)'', ''X - Other''],
        old_state,
        [Print SearchingSpotify,
         Print (SearchingFor 1 3 ''Bad'' ''X''),
         SpotifySearch ''track:Bad artist:X'',
         Print (SearchFailed ''Bad'' (ApiError ''boom'')),
         Print (SearchingFor 2 3 ''Song (live)'' ''Zeta''),
         SpotifySearch ''track:Song (live) artist:Zeta'',
         Print NoExactMatch,
         Print (CleanedTitle ''Song''),
         SpotifySearch ''track:Song artist:Zeta'',
         Print (FoundOnSpotify ''Song'' ''Zeta''),
         Print (SearchingFor 3 3 ''Other'' ''X''),
         SpotifySearch ''track:Other artist:X'',
         Print NoExactMatch,
         Print CouldNotFind,
         Print SearchComplete])"
  by (simp add: find_spotify_tracks_def sample_tracks_def try_search_def call_search_def
      service_def sample_answer_def sample_cleaned)

text \<open>
  C6. Whatever the searches do, the matcher returns, with one result for each
  source track in the order of the tracks, and the result is that of the specification's
  \<open>match\<close>: the found list holds the matched results and the other list the
  descriptors of the unmatched ones, each in that order, so that the two lengths add up
  to the number of tracks, and every track's lookup was begun. An error in the lookup of
  a track is not passed on, whichever it is: the first search raising, the search with
  the cleaned title raising, or the result of either search naming no artist. Each time
  the track is recorded with the tag of a failed search and the tracks after it are
  looked up from the state the failing lookup left.
\<close>

theorem matcher_total:
  assumes "find_spotify_tracks sp apple_tracks w = (found_tracks, not_found_tracks, w', evs)"
  shows "found_tracks = matched_of (match_all sp apple_tracks w)
    \<and> not_found_tracks = unmatched_of (match_all sp apple_tracks w)
    \<and> list_all2 describes apple_tracks (match_all sp apple_tracks w)
    \<and> length found_tracks + length not_found_tracks = length apple_tracks
    \<and> lookups evs = map Suc [0..<length apple_tracks]
    \<and> (apple_tracks = t # ts
         \<and> search sp (''track:'' @ name t @ '' artist:'' @ artist t) w = (Inl e, w1)
       \<longrightarrow> found_tracks = matched_of (match_all sp ts w1)
         \<and> not_found_tracks = (artist t @ '' - '' @ name t @ '' (Error during search)'')
             # unmatched_of (match_all sp ts w1))
    \<and> (apple_tracks = t # ts
         \<and> search sp (''track:'' @ name t @ '' artist:'' @ artist t) w = (Inr [], w1)
         \<and> cleaned_name (name t) \<noteq> name t
         \<and> search sp (''track:'' @ cleaned_name (name t) @ '' artist:'' @ artist t) w1
             = (Inl e, w2)
       \<longrightarrow> found_tracks = matched_of (match_all sp ts w2)
         \<and> not_found_tracks = (artist t @ '' - '' @ name t @ '' (Error during search)'')
             # unmatched_of (match_all sp ts w2))
    \<and> (apple_tracks = t # ts
         \<and> search sp (''track:'' @ name t @ '' artist:'' @ artist t) w = (Inr (item # rest), w1)
         \<and> item_artists item = []
       \<longrightarrow> found_tracks = matched_of (match_all sp ts w1)
         \<and> not_found_tracks = (artist t @ '' - '' @ name t @ '' (Error during search)'')
             # unmatched_of (match_all sp ts w1))
    \<and> (apple_tracks = t # ts
         \<and> search sp (''track:'' @ name t @ '' artist:'' @ artist t) w = (Inr [], w1)
         \<and> cleaned_name (name t) \<noteq> name t
         \<and> search sp (''track:'' @ cleaned_name (name t) @ '' artist:'' @ artist t) w1
             = (Inr (item # rest), w2)
         \<and> item_artists item = []
       \<longrightarrow> found_tracks = matched_of (match_all sp ts w2)
         \<and> not_found_tracks = (artist t @ '' - '' @ name t @ '' (Error during search)'')
             # unmatched_of (match_all sp ts w2))"
proof -
  note r = find_spotify_tracks_results [OF assms]
  let ?tag = "artist t @ '' - '' @ name t @ '' (Error during search)''"
  have n: "length found_tracks + length not_found_tracks = length apple_tracks"
    unfolding r(1,2) by (simp add: length_matched_unmatched length_match_all)
  have p1: "found_tracks = matched_of (match_all sp ts w1)
      \<and> not_found_tracks = ?tag # unmatched_of (match_all sp ts w1)"
    if "apple_tracks = t # ts
      \<and> search sp (''track:'' @ name t @ '' artist:'' @ artist t) w = (Inl e, w1)"
    unfolding r(1,2) using that by (simp add: spec_match_def search_error_def)
  have p2: "found_tracks = matched_of (match_all sp ts w2)
      \<and> not_found_tracks = ?tag # unmatched_of (match_all sp ts w2)"
    if "apple_tracks = t # ts
      \<and> search sp (''track:'' @ name t @ '' artist:'' @ artist t) w = (Inr [], w1)
      \<and> cleaned_name (name t) \<noteq> name t
      \<and> search sp (''track:'' @ cleaned_name (name t) @ '' artist:'' @ artist t) w1
          = (Inl e, w2)"
    unfolding r(1,2) using that by (simp add: spec_match_def search_error_def)
  have p3: "found_tracks = matched_of (match_all sp ts w1)
      \<and> not_found_tracks = ?tag # unmatched_of (match_all sp ts w1)"
    if "apple_tracks = t # ts
      \<and> search sp (''track:'' @ name t @ '' artist:'' @ artist t) w = (Inr (item # rest), w1)
      \<and> item_artists item = []"
    unfolding r(1,2) using that by (simp add: spec_match_def search_error_def matched_def)
  have p4: "found_tracks = matched_of (match_all sp ts w2)
      \<and> not_found_tracks = ?tag # unmatched_of (match_all sp ts w2)"
    if "apple_tracks = t # ts
      \<and> search sp (''track:'' @ name t @ '' artist:'' @ artist t) w = (Inr [], w1)
      \<and> cleaned_name (name t) \<noteq> name t
      \<and> search sp (''track:'' @ cleaned_name (name t) @ '' artist:'' @ artist t) w1
          = (Inr (item # rest), w2)
      \<and> item_artists item = []"
    unfolding r(1,2) using that by (simp add: spec_match_def search_error_def matched_def)
  from r(1,2,3) n p1 p2 p3 p4 show ?thesis
    using match_all_describes [of apple_tracks sp w] by blast
qed

theorem matcher_total_witness:
  "find_spotify_tracks (service sample_answer never_fails) sample_tracks old_state
     = ([\<lparr>artist = ''Zeta'', name = ''Song'', track_id = ''z1''\<rparr>],
        [''X - Bad (Error during search)'', ''X - Other''],
        old_state, snd (snd (snd (find_spotify_tracks (service sample_answer never_fails)
          sample_tracks old_state))))
   \<and> lookups (snd (snd (snd (find_spotify_tracks (service sample_answer never_fails)
          sample_tracks old_state)))) = [1, 2, 3]
   \<and> search (service sample_answer never_fails) ''track:Bad artist:X'' old_state
       = (Inl (ApiError ''boom''), old_state)
   \<and> fst (snd (find_spotify_tracks (service sample_answer never_fails)
         [\<lparr>artist = ''X'', name = ''Bad''\<rparr>] old_state))
       = [''X - Bad (Error during search)'']
   \<and> search (service sample_answer never_fails) ''track:Bad (live) artist:X'' old_state
       = (Inr [], old_state)
   \<and> cleaned_name ''Bad (live)'' = ''Bad''
   \<and> fst (snd (find_spotify_tracks (service sample_answer never_fails)
         [\<lparr>artist = ''X'', name = ''Bad (live)''\<rparr>] old_state))
       = [''X - Bad (live) (Error during search)'']
   \<and> search (service sample_answer never_fails) ''track:Ghost artist:X'' old_state
       = (Inr [\<lparr>item_id = ''g'', item_name = ''Ghost'', item_artists = []\<rparr>], old_state)
   \<and> fst (snd (find_spotify_tracks (service sample_answer never_fails)
         [\<lparr>artist = ''X'', name = ''Ghost''\<rparr>] old_state))
       = [''X - Ghost (Error during search)'']
   \<and> search (service sample_answer never_fails) ''track:Ghost (live) artist:X'' old_state
       = (Inr [], old_state)
   \<and> cleaned_name ''Ghost (live)'' = ''Ghost''
   \<and> fst (snd (find_spotify_tracks (service sample_answer never_fails)
         [\<lparr>artist = ''X'', name = ''Ghost (live)''\<rparr>] old_state))
       = [''X - Ghost (live) (Error during search)'']"
proof -
  let ?sp = "service sample_answer never_fails"
  let ?ghost = "\<lparr>item_id = ''g'', item_name = ''Ghost'', item_artists = []\<rparr>"
  have c: "\<And>ts. find_spotify_tracks ?sp ts old_state
      = (fst (find_spotify_tracks ?sp ts old_state),
         fst (snd (find_spotify_tracks ?sp ts old_state)),
         fst (snd (snd (find_spotify_tracks ?sp ts old_state))),
         snd (snd (snd (find_spotify_tracks ?sp ts old_state))))"
    by simp
  note g = matcher_total [OF sample_find, of "\<lparr>artist = ''X'', name = ''Bad''\<rparr>"
      "tl sample_tracks" "ApiError ''boom''" old_state old_state ?ghost "[]"]
  note p1 = matcher_total [OF c, of "[\<lparr>artist = ''X'', name = ''Bad''\<rparr>]"
      "\<lparr>artist = ''X'', name = ''Bad''\<rparr>" "[]" "ApiError ''boom''" old_state old_state ?ghost "[]"]
  note p2 = matcher_total [OF c, of "[\<lparr>artist = ''X'', name = ''Bad (live)''\<rparr>]"
      "\<lparr>artist = ''X'', name = ''Bad (live)''\<rparr>" "[]" "ApiError ''boom''" old_state old_state
      ?ghost "[]"]
  note p3 = matcher_total [OF c, of "[\<lparr>artist = ''X'', name = ''Ghost''\<rparr>]"
      "\<lparr>artist = ''X'', name = ''Ghost''\<rparr>" "[]" "ApiError ''boom''" old_state old_state
      ?ghost "[]"]
  note p4 = matcher_total [OF c, of "[\<lparr>artist = ''X'', name = ''Ghost (live)''\<rparr>]"
      "\<lparr>artist = ''X'', name = ''Ghost (live)''\<rparr>" "[]" "ApiError ''boom''" old_state old_state
      ?ghost "[]"]
  have n: "length sample_tracks = 3"
    by (simp add: sample_tracks_def)
  have l: "lookups (snd (snd (snd (find_spotify_tracks ?sp sample_tracks old_state)))) = [1, 2, 3]"
    using g [THEN conjunct2, THEN conjunct2, THEN conjunct2, THEN conjunct2, THEN conjunct1]
    by (simp add: sample_find upt_0_3 n)
  have e1: "fst (snd (find_spotify_tracks ?sp [\<lparr>artist = ''X'', name = ''Bad''\<rparr>] old_state))
      = [''X - Bad (Error during search)'']"
    using p1 [THEN conjunct2, THEN conjunct2, THEN conjunct2, THEN conjunct2, THEN conjunct2, THEN conjunct1]
    by (simp add: sample_searches)
  have e2: "fst (snd (find_spotify_tracks ?sp [\<lparr>artist = ''X'', name = ''Bad (live)''\<rparr>] old_state))
      = [''X - Bad (live) (Error during search)'']"
    using p2 [THEN conjunct2, THEN conjunct2, THEN conjunct2, THEN conjunct2, THEN conjunct2, THEN conjunct2, THEN conjunct1]
    by (simp add: sample_searches sample_cleaned)
  have e3: "fst (snd (find_spotify_tracks ?sp [\<lparr>artist = ''X'', name = ''Ghost''\<rparr>] old_state))
      = [''X - Ghost (Error during search)'']"
    using p3 [THEN conjunct2, THEN conjunct2, THEN conjunct2, THEN conjunct2, THEN conjunct2, THEN conjunct2, THEN conjunct2, THEN conjunct1]
    by (simp add: sample_searches)
  have e4: "fst (snd (find_spotify_tracks ?sp [\<lparr>artist = ''X'', name = ''Ghost (live)''\<rparr>] old_state))
      = [''X - Ghost (live) (Error during search)'']"
    using p4 [THEN conjunct2, THEN conjunct2, THEN conjunct2, THEN conjunct2, THEN conjunct2, THEN conjunct2, THEN conjunct2, THEN conjunct2]
    by (simp add: sample_searches sample_cleaned)
  from l e1 e2 e3 e4 show ?thesis
    by (simp add: sample_find sample_searches sample_cleaned)
qed

section \<open>Facts about a whole run\<close>

lemma writes_simps:
  "writes [] = []"
  "writes (Print m # es) = writes es"
  "writes (Input # es) = writes es"
  "writes (SpotifyMe # es) = writes es"
  "writes (AppleRequest p l off # es) = writes es"
  "writes (SpotifySearch q # es) = writes es"
  "writes (ReplaceItems p xs # es) = ReplaceItems p xs # writes es"
  "writes (AddItems p xs # es) = AddItems p xs # writes es"
  by (simp_all add: writes_def)

lemma fetch_loop_writes:
  assumes "fetch_loop am pid off acc out = Some y"
  shows "writes (snd y) = writes out"
proof (rule fetch_loop.raw_induct
    [where P = "\<lambda>am pid off acc out y. writes (snd y) = writes out", OF _ assms])
  fix f am pid off acc out y
  assume ih: "\<And>am pid off acc out y. f am pid off acc out = Some y
      \<Longrightarrow> writes (snd y) = writes out"
    and step: "(case am pid 100 off of
        Inl e \<Rightarrow> Some (Inl e, out @ [AppleRequest pid 100 off])
      | Inr page_of_tracks \<Rightarrow>
          let all_tracks' = acc @ process_page page_of_tracks;
              out' = out @ [AppleRequest pid 100 off]
          in if length page_of_tracks < 100
             then Some (Inr all_tracks', out' @ [Print ReachedEnd])
             else f am pid (off + 100) all_tracks'
                   (out' @ [Print (FetchedSoFar (length all_tracks'))])) = Some y"
  show "writes (snd y) = writes out"
  proof (cases "am pid 100 off")
    case (Inl e)
    with step show ?thesis by (auto simp: writes_append writes_simps)
  next
    case (Inr page)
    show ?thesis
    proof (cases "length page < 100")
      case True
      with step Inr show ?thesis by (auto simp: writes_append writes_simps)
    next
      case False
      with step Inr have "f am pid (off + 100) (acc @ process_page page)
          (out @ [AppleRequest pid 100 off]
             @ [Print (FetchedSoFar (length (acc @ process_page page)))]) = Some y"
        by (simp add: Let_def)
      from ih [OF this] show ?thesis by (simp add: writes_append writes_simps)
    qed
  qed
qed

lemma get_apple_music_tracks_writes:
  assumes "get_apple_music_tracks connect pid = Some (r, evs)"
  shows "writes evs = []"
proof (cases connect)
  case (Inl e)
  with assms show ?thesis by (auto simp: get_apple_music_tracks_def writes_simps)
next
  case (Inr am)
  with assms obtain y where
    y: "fetch_loop am pid 0 [] [Print ConnectingApple, Print FetchingAll] = Some y"
    by (auto simp: get_apple_music_tracks_def split: option.splits)
  from fetch_loop_writes [OF y] have "writes (snd y) = []" by (simp add: writes_simps)
  with assms Inr y show ?thesis
    by (cases y) (auto simp: get_apple_music_tracks_def writes_append writes_simps
        split: sum.splits)
qed

lemma writes_review: "writes (review spotify_tracks not_found_tracks) = []"
  by (auto simp: review_def writes_def filter_empty_conv)

lemma main_returns:
  assumes "get_apple_music_tracks connect aid \<noteq> None"
  shows "main sp connect aid pid console w \<noteq> None"
  using assms
  by (auto simp: main_def split: prod.splits option.splits)

text \<open>
  A run that returns made no write call, or read an affirmative line old_state its first
  write call.
\<close>

lemma main_writes:
  assumes "main sp connect aid pid console w = Some (r, w', evs)"
  shows "writes evs = []
    \<or> (\<exists>line pre post. console = Inr line \<and> str_lower line = ''y''
          \<and> evs = pre @ Input # post \<and> writes pre = [])"
proof -
  obtain r0 w0 where a: "me sp w = (r0, w0)"
    by (cases "me sp w")
  show ?thesis
  proof (cases r0)
    case (Some e)
    with assms a have "evs = [SpotifyMe, Print (CouldNotAuthenticate e)]"
      by (simp add: main_def)
    then show ?thesis by (simp add: writes_simps)
  next
    case None
    with assms a obtain tr ev1 where b: "get_apple_music_tracks connect aid = Some (tr, ev1)"
      by (auto simp: main_def split: option.splits)
    note w1 = get_apple_music_tracks_writes [OF b]
    have s: "writes (SpotifyMe # ev1) = []"
      using w1 by (simp add: writes_simps)
    show ?thesis
    proof (cases "tr = None \<or> tr = Some []")
      case True
      with assms a None b have "evs = SpotifyMe # ev1"
        by (auto simp: main_def)
      with s show ?thesis by simp
    next
      case False
      then obtain apple_tracks where t: "tr = Some apple_tracks" "apple_tracks \<noteq> []"
        by auto
      obtain spotify_tracks not_found_tracks w1 ev2 where
        c: "find_spotify_tracks sp apple_tracks w0 = (spotify_tracks, not_found_tracks, w1, ev2)"
        by (cases "find_spotify_tracks sp apple_tracks w0")
      note w2 = find_spotify_tracks_results(4) [OF c]
      let ?pre = "SpotifyMe # ev1 @ ev2 @ review spotify_tracks not_found_tracks"
      have p: "writes ?pre = []"
        using s w2 writes_review [of spotify_tracks not_found_tracks]
        by (simp add: writes_append writes_simps)
      show ?thesis
      proof (cases "spotify_tracks = []")
        case True
        with assms a None b t c have "evs = ?pre @ [Print NoTracksToSync]"
          by (simp add: main_def)
        with p have "writes evs = []"
          by (simp add: writes_append writes_simps)
        then show ?thesis by simp
      next
        case False
        obtain r3 w3 ev3 where
          d: "confirm sp pid spotify_tracks console w1 = (r3, w3, ev3)"
          by (cases "confirm sp pid spotify_tracks console w1")
        from assms a None b t c False d have e: "evs = ?pre @ ev3"
          by (simp add: main_def)
        show ?thesis
        proof (cases console)
          case (Inl x)
          with d have "ev3 = [Input]" by (simp add: confirm_def)
          with e p have "writes evs = []"
            by (simp add: writes_append writes_simps)
          then show ?thesis by simp
        next
          case (Inr line)
          show ?thesis
          proof (cases "str_lower line = ''y''")
            case True
            with d Inr obtain post where "ev3 = Input # post"
              by (auto simp: confirm_def split: prod.splits)
            with e have "evs = ?pre @ Input # post" by simp
            with Inr True p show ?thesis by blast
          next
            case False
            with d Inr have "ev3 = [Input, Print SyncCancelled]"
              by (simp add: confirm_def)
            with e p have "writes evs = []"
              by (simp add: writes_append writes_simps)
            then show ?thesis by simp
          qed
        qed
      qed
    qed
  qed
qed

lemma sample_fetch:
  "get_apple_music_tracks (Inr (paged [good_record])) ''ap''
     = Some (Some [\<lparr>artist = ''Zeta'', name = ''Song''\<rparr>],
         [Print ConnectingApple, Print FetchingAll, AppleRequest ''ap'' 100 0,
          Print ReachedEnd, Print (FoundTotal 1)])"
proof -
  have "fetch_loop (paged [good_record]) ''ap'' 0 [] [Print ConnectingApple, Print FetchingAll]
      = Some (Inr [\<lparr>artist = ''Zeta'', name = ''Song''\<rparr>],
          [Print ConnectingApple, Print FetchingAll, AppleRequest ''ap'' 100 0, Print ReachedEnd])"
    by (subst fetch_loop.simps) (simp add: paged_def good_record_def)
  then show ?thesis by (simp add: get_apple_music_tracks_def)
qed

lemma sample_run:
  "main (service sample_answer never_fails) (Inr (paged [good_record])) ''ap'' ''pl''
       (Inr ''Y'') old_state
     = Some (None, \<lparr>playlist = [''z1''], calls = 2\<rparr>,
         [SpotifyMe,
          Print ConnectingApple, Print FetchingAll, AppleRequest ''ap'' 100 0,
          Print ReachedEnd, Print (FoundTotal 1),
          Print SearchingSpotify, Print (SearchingFor 1 1 ''Song'' ''Zeta''),
          SpotifySearch ''track:Song artist:Zeta'', Print (FoundOnSpotify ''Song'' ''Zeta''),
          Print SearchComplete,
          Print ReviewRule, Print ReviewTitle, Print ReviewRule,
          Print WillBeSyncedHeader, Print (SyncItem ''Zeta'' ''Song''), Print ReviewRule,
          Input,
          Print SortingTracks, Print UpdatingPlaylist, ReplaceItems ''pl'' [],
          AddItems ''pl'' [''z1''], Print Success])"
  by (simp add: main_def sample_fetch find_spotify_tracks_def try_search_def call_search_def
      service_def sample_answer_def never_fails_def old_state_def review_def sorted_tracks_def
      confirm_def str_lower_y update_spotify_playlist_def chunk_starts_def Let_def)

lemma sample_run_declined:
  "main (service sample_answer never_fails) (Inr (paged [good_record])) ''ap'' ''pl''
       (Inr ''yes'') old_state
     = Some (None, old_state,
         [SpotifyMe,
          Print ConnectingApple, Print FetchingAll, AppleRequest ''ap'' 100 0,
          Print ReachedEnd, Print (FoundTotal 1),
          Print SearchingSpotify, Print (SearchingFor 1 1 ''Song'' ''Zeta''),
          SpotifySearch ''track:Song artist:Zeta'', Print (FoundOnSpotify ''Song'' ''Zeta''),
          Print SearchComplete,
          Print ReviewRule, Print ReviewTitle, Print ReviewRule,
          Print WillBeSyncedHeader, Print (SyncItem ''Zeta'' ''Song''), Print ReviewRule,
          Input, Print SyncCancelled])"
  by (simp add: main_def sample_fetch find_spotify_tracks_def try_search_def call_search_def
      service_def sample_answer_def never_fails_def old_state_def review_def sorted_tracks_def
      confirm_def str_lower_y Let_def)

text \<open>
  C1. A run returns whenever the fetch does. If a run made a write call to the
  destination, then a line was read from the console, its lowercase form is \<open>y\<close>,
  and no write call came before the read. So on every other line, and when the console
  is closed, the run ends with no write call made.
\<close>

theorem confirmation_gate:
  "(get_apple_music_tracks connect aid \<noteq> None \<longrightarrow> main sp connect aid pid console w \<noteq> None)
   \<and> (main sp connect aid pid console w = Some (r, w', evs) \<and> writes evs \<noteq> []
      \<longrightarrow> (\<exists>line pre post. console = Inr line \<and> str_lower line = ''y''
             \<and> evs = pre @ Input # post \<and> writes pre = []))
   \<and> (main sp connect aid pid console w = Some (r, w', evs)
        \<and> (\<forall>line. console = Inr line \<longrightarrow> str_lower line \<noteq> ''y'')
      \<longrightarrow> writes evs = [])"
proof (intro conjI impI)
  assume "get_apple_music_tracks connect aid \<noteq> None"
  then show "main sp connect aid pid console w \<noteq> None"
    by (rule main_returns)
next
  assume "main sp connect aid pid console w = Some (r, w', evs) \<and> writes evs \<noteq> []"
  with main_writes [of sp connect aid pid console w r w' evs]
  show "\<exists>line pre post. console = Inr line \<and> str_lower line = ''y''
      \<and> evs = pre @ Input # post \<and> writes pre = []"
    by blast
next
  assume "main sp connect aid pid console w = Some (r, w', evs)
    \<and> (\<forall>line. console = Inr line \<longrightarrow> str_lower line \<noteq> ''y'')"
  with main_writes [of sp connect aid pid console w r w' evs]
  show "writes evs = []"
    by blast
qed

theorem confirmation_gate_witness:
  "get_apple_music_tracks (Inr (paged [good_record])) ''ap'' \<noteq> None
   \<and> main (service sample_answer never_fails) (Inr (paged [good_record])) ''ap'' ''pl''
       (Inr ''Y'') old_state \<noteq> None
   \<and> writes (snd (snd (the (main (service sample_answer never_fails)
        (Inr (paged [good_record])) ''ap'' ''pl'' (Inr ''Y'') old_state))))
       = [ReplaceItems ''pl'' [], AddItems ''pl'' [''z1'']]
   \<and> str_lower ''Y'' = ''y''
   \<and> str_lower ''yes'' \<noteq> ''y''
   \<and> writes (snd (snd (the (main (service sample_answer never_fails)
        (Inr (paged [good_record])) ''ap'' ''pl'' (Inr ''yes'') old_state)))) = []"
proof -
  note a = confirmation_gate [of "Inr (paged [good_record])" "''ap''"
      "service sample_answer never_fails" "''pl''" "Inr ''Y''" old_state
      None "\<lparr>playlist = [''z1''], calls = 2\<rparr>"
      "snd (snd (the (main (service sample_answer never_fails)
        (Inr (paged [good_record])) ''ap'' ''pl'' (Inr ''Y'') old_state)))"]
  note b = confirmation_gate [of "Inr (paged [good_record])" "''ap''"
      "service sample_answer never_fails" "''pl''" "Inr ''yes''" old_state
      None old_state
      "snd (snd (the (main (service sample_answer never_fails)
        (Inr (paged [good_record])) ''ap'' ''pl'' (Inr ''yes'') old_state)))"]
  have y: "str_lower ''Y'' = ''y''" "str_lower ''yes'' \<noteq> ''y''"
    by (simp_all add: str_lower_y)
  from a b y show ?thesis
    by (simp add: sample_fetch sample_run sample_run_declined writes_simps)
qed

end
